theory Spec2Isabelle
  imports Complex_Main
begin

section \<open>Python values used by \<open>assembly_preprocessing.py\<close>\<close>

text \<open>
  The exceptions the module can raise. It defines no exception class of its own: every
  failure is one of Python's built-in exceptions, raised by an index expression, by the
  division, or by \<open>open\<close> and \<open>readlines\<close>.
\<close>

datatype error =
    IndexError
  | ZeroDivisionError
  | FileNotFoundError
  | IsADirectoryError
  | PermissionError
  | UnicodeDecodeError

text \<open>
  A Python \<open>str\<close> is the list of its code points, and a code point is a number: the
  first character of a string is its first code point, whatever its encoding in a file.
  \<open>py\<close> reads a literal of ASCII characters as a \<open>str\<close>.
\<close>

type_synonym str = "nat list"

definition py :: "string \<Rightarrow> str" where
  "py s = map of_char s"

definition quote :: nat where
  "quote = 0x27"

definition space :: nat where
  "space = 0x20"

definition newline :: nat where
  "newline = 0x0A"

text \<open>\<open>xs[i]\<close> on a Python list or string: a negative index counts from the end.\<close>

definition py_nth :: "'a list \<Rightarrow> int \<Rightarrow> error + 'a" where
  "py_nth xs i =
     (if 0 \<le> i \<and> i < int (length xs) then Inr (xs ! nat i)
      else if i < 0 \<and> - int (length xs) \<le> i then Inr (xs ! nat (int (length xs) + i))
      else Inl IndexError)"

text \<open>\<open>s.split(sep)\<close> for a separator of one character: never the empty list.\<close>

fun split_py :: "nat \<Rightarrow> str \<Rightarrow> str list" where
  "split_py sep [] = [[]]"
| "split_py sep (c # cs) =
     (if c = sep then [] # split_py sep cs
      else (case split_py sep cs of [] \<Rightarrow> [[c]] | w # ws \<Rightarrow> (c # w) # ws))"

text \<open>\<open>s.replace(c, "")\<close> for a one-character string \<open>c\<close>.\<close>

definition remove_char :: "nat \<Rightarrow> str \<Rightarrow> str" where
  "remove_char c s = filter (\<lambda>x. x \<noteq> c) s"

section \<open>\<open>tokenize_instructions\<close>\<close>

text \<open>\<open>command = (instruction.split(" "))[0]\<close>\<close>

definition command_of :: "str \<Rightarrow> str" where
  "command_of instruction = hd (split_py space instruction)"

text \<open>
  The inner loop, over the fragments of one function: the state is \<open>token_list\<close> and the
  function's own entry of \<open>tokenized_functions\<close>.
\<close>

fun tokenize_fragments :: "str list \<Rightarrow> str list \<times> str list \<Rightarrow> str list \<times> str list" where
  "tokenize_fragments [] (token_list, tokens) = (token_list, tokens)"
| "tokenize_fragments (instruction # rest) (token_list, tokens) =
     (let command = command_of instruction in
      if command \<notin> set [py ''['', py '']'', py '',''] then
        tokenize_fragments rest
          (if command \<notin> set token_list then token_list @ [command] else token_list,
           tokens @ [command])
      else tokenize_fragments rest (token_list, tokens))"

text \<open>The outer loop, over the functions, in order.\<close>

fun tokenize_functions :: "str list \<Rightarrow> str list \<Rightarrow> str list \<times> str list list" where
  "tokenize_functions [] token_list = (token_list, [])"
| "tokenize_functions (function # rest) token_list =
     (let (token_list1, tokens) = tokenize_fragments (split_py quote function) (token_list, []);
          (token_list2, tokenized) = tokenize_functions rest token_list1
      in (token_list2, tokens # tokenized))"

definition tokenize_instructions :: "str list \<Rightarrow> str list \<times> str list list" where
  "tokenize_instructions assembly_functions = tokenize_functions assembly_functions []"

section \<open>The category assignment: a Python dictionary\<close>

text \<open>
  \<open>token_dict\<close> is a \<open>defaultdict(str)\<close> with keys \<open>(category, index)\<close>. Its items are
  read in insertion order, so it is an association list with distinct keys.
  \<open>token_dict[k] += s\<close> appends \<open>s\<close> to the value stored under \<open>k\<close>, in place, and enters
  \<open>k\<close> at the end with the value \<open>"" + s\<close> when it is new.
\<close>

type_synonym token_dict = "((str \<times> nat) \<times> str) list"

fun dict_add :: "'k \<Rightarrow> str \<Rightarrow> ('k \<times> str) list \<Rightarrow> ('k \<times> str) list" where
  "dict_add k s [] = [(k, s)]"
| "dict_add k s ((k', v) # d) =
     (if k' = k then (k', v @ s) # d else (k', v) # dict_add k s d)"

section \<open>\<open>token_categorizer\<close>\<close>

subsection \<open>File mode\<close>

text \<open>
  \<open>glossary.readlines()\<close> on the text of the file (decoded, newlines translated): every
  line keeps its newline, the last line may lack one, and no line is empty.
\<close>

fun readlines :: "str \<Rightarrow> str list" where
  "readlines [] = []"
| "readlines (c # cs) =
     (if c = newline then [c] # readlines cs
      else (case readlines cs of [] \<Rightarrow> [[c]] | l # ls \<Rightarrow> (c # l) # ls))"

text \<open>
  The loop over the lines. The state is \<open>(features, f_i, e_i, token_dict)\<close>; the
  \<open>continue\<close> of the marker branch is the first branch of the \<open>if\<close>.
\<close>

type_synonym file_state = "str list \<times> int \<times> nat \<times> token_dict"

fun glossary_lines :: "nat \<Rightarrow> str list \<Rightarrow> str list \<Rightarrow> file_state \<Rightarrow> error + file_state" where
  "glossary_lines special_char token_list [] st = Inr st"
| "glossary_lines special_char token_list (element # rest) (features, f_i, e_i, token_dict) =
     (if special_char \<in> set element then
        (let features1 = features @ [remove_char newline (remove_char special_char element)] in
         case py_nth features1 f_i of
           Inl e \<Rightarrow> Inl e
         | Inr feature \<Rightarrow>
             glossary_lines special_char token_list rest
               (features1, f_i + 1, 0, dict_add (feature, 0) [] token_dict))
      else
        (let element1 = remove_char newline (remove_char space element) in
         if element1 \<in> set token_list then
           (case py_nth features (f_i - 1) of
              Inl e \<Rightarrow> Inl e
            | Inr feature \<Rightarrow>
                glossary_lines special_char token_list rest
                  (features, f_i, e_i + 1, dict_add (feature, e_i) element1 token_dict))
         else glossary_lines special_char token_list rest (features, f_i, e_i, token_dict)))"

text \<open>The text that the warning prints: the four arguments of \<open>print\<close>, joined by spaces.\<close>

definition warning_text :: str where
  "warning_text =
     [newline, newline] @ py ''WARNING: GLOSSARY PROVIDED IS WRONG OR INSUFFICIENT TO CLASSIFY''
     @ py '' INSTRUCTIONS IN THE DATASET!!! '' @ [newline] @ py ''BE SURE THAT #MNEMONIC IN THE''
     @ py '' GLOSSARY >= THAN #MNEMONIC IN THE DATASET AND THAT the DOCUMENT IS''
     @ py '' IN THE CORRECT FORMAT'' @ [newline, newline]"

text \<open>
  File mode on the lines of the file: the assignment, and whether the warning is printed.
  \<open>lines[0][0]\<close> raises on a file without lines.
\<close>

definition file_mode :: "str list \<Rightarrow> str list \<Rightarrow> error + (token_dict \<times> bool)" where
  "file_mode token_list lines =
     (case py_nth lines 0 of
        Inl e \<Rightarrow> Inl e
      | Inr line0 \<Rightarrow>
          (case py_nth line0 0 of
             Inl e \<Rightarrow> Inl e
           | Inr special_char \<Rightarrow>
               (case glossary_lines special_char token_list lines ([], 0, 0, []) of
                  Inl e \<Rightarrow> Inl e
                | Inr (features, f_i, e_i, token_dict) \<Rightarrow>
                    Inr (token_dict,
                         int (length token_list) > int (length lines) - int (length features)))))"

subsection \<open>Default mode\<close>

text \<open>
  The module \<open>assembly_glossary\<close> is not part of the sources at hand, so the object
  \<open>self.default_glossary\<close> is a parameter: what \<open>getCategories()\<close> returns, a list of
  category names, and the items of the dictionary that \<open>getDictionary()\<close> returns, in
  order, each a key \<open>(category, index)\<close> with its mnemonic.
\<close>

record glossary =
  getCategories :: "str list"
  getDictionary :: "((str \<times> nat) \<times> str) list"

type_synonym default_state = "int \<times> nat \<times> token_dict"

fun default_items :: "str list \<Rightarrow> str list \<Rightarrow> ((str \<times> nat) \<times> str) list \<Rightarrow>
    default_state \<Rightarrow> error + default_state" where
  "default_items features token_list [] st = Inr st"
| "default_items features token_list (item # rest) (f_i, e_i, token_dict) =
     (case py_nth features f_i of
        Inl e \<Rightarrow> Inl e
      | Inr feature \<Rightarrow>
          (case (if fst (fst item) \<noteq> feature then
                   (case py_nth features (f_i + 1) of
                      Inl e \<Rightarrow> Inl e
                    | Inr next_feature \<Rightarrow>
                        Inr (f_i + 1, 0, dict_add (next_feature, 0) [] token_dict))
                 else Inr (f_i, e_i, token_dict)) of
             Inl e \<Rightarrow> Inl e
           | Inr (f_i1, e_i1, token_dict1) \<Rightarrow>
               (if snd item \<in> set token_list then
                  (case py_nth features f_i1 of
                     Inl e \<Rightarrow> Inl e
                   | Inr feature1 \<Rightarrow>
                       default_items features token_list rest
                         (f_i1, e_i1 + 1, dict_add (feature1, e_i1) (snd item) token_dict1))
                else default_items features token_list rest (f_i1, e_i1, token_dict1))))"

definition default_mode :: "glossary \<Rightarrow> str list \<Rightarrow> error + token_dict" where
  "default_mode default_glossary token_list =
     (let default_dict = getDictionary default_glossary;
          features = getCategories default_glossary in
      case py_nth features 0 of
        Inl e \<Rightarrow> Inl e
      | Inr feature \<Rightarrow>
          (case default_items features token_list default_dict (0, 0, dict_add (feature, 0) [] []) of
             Inl e \<Rightarrow> Inl e
           | Inr (f_i, e_i, token_dict) \<Rightarrow> Inr token_dict))"

subsection \<open>The choice of the mode, and the effects\<close>

text \<open>
  The argument \<open>instruction_glossary\<close> can be any Python object; the code asks only
  whether it is \<open>None\<close> and whether it is a \<open>str\<close>.
\<close>

datatype py_value =
    PyNone
  | PyStr str
  | PyBytes "nat list"
  | PyPath str
  | PyInt int
  | PyBool bool
  | PyList "py_value list"

fun isinstance_str :: "py_value \<Rightarrow> bool" where
  "isinstance_str (PyStr s) = True"
| "isinstance_str v = False"

text \<open>
  What the function does besides returning: it opens files and prints. The world says,
  for every path, what \<open>open\<close> and \<open>readlines\<close> give: the text of the file, decoded to
  code points and with its newlines translated, or the error that they raise. It also
  holds the paths opened so far and the texts printed so far (one entry for each call of
  \<open>print\<close>).
\<close>

record world =
  files :: "str \<Rightarrow> error + str"
  opened :: "str list"
  printed :: "str list"

definition token_categorizer :: "glossary \<Rightarrow> str list \<Rightarrow> py_value \<Rightarrow> world \<Rightarrow>
    (error + token_dict) \<times> world" where
  "token_categorizer default_glossary token_list instruction_glossary w =
     (if instruction_glossary \<noteq> PyNone \<and> isinstance_str instruction_glossary then
        (case instruction_glossary of
           PyStr path \<Rightarrow>
             (let w1 = w\<lparr>opened := opened w @ [path]\<rparr> in
              case files w path of
                Inl e \<Rightarrow> (Inl e, w1)
              | Inr contents \<Rightarrow>
                  (case file_mode token_list (readlines contents) of
                     Inl e \<Rightarrow> (Inl e, w1)
                   | Inr (token_dict, warn) \<Rightarrow>
                       (Inr token_dict,
                        if warn then w1\<lparr>printed := printed w1 @ [warning_text]\<rparr> else w1)))
         | _ \<Rightarrow> (default_mode default_glossary token_list, w))
      else (default_mode default_glossary token_list, w))"

section \<open>\<open>assembly_dataframer\<close>\<close>

subsection \<open>The division and \<open>round\<close>\<close>

text \<open>
  A Python \<open>float\<close> is an IEEE 754 double. A positive double with 53 significant bits is
  written here as a pair \<open>(m, e)\<close> that stands for \<open>m / 2 ^ e\<close>. Rounding to the nearest
  integer, ties to the even one:
\<close>

definition round_half_even :: "int \<Rightarrow> int \<Rightarrow> int" where
  "round_half_even p q =
     (let d = p div q; r = p mod q in
      if 2 * r < q then d
      else if q < 2 * r then d + 1
      else if even d then d else d + 1)"

text \<open>The least \<open>s\<close>, from \<open>s\<close> on, with \<open>b \<le> a * 2 ^ s\<close>: then \<open>a * 2 ^ s / b\<close> is in \<open>[1, 2)\<close>.\<close>

function norm_shift :: "nat \<Rightarrow> nat \<Rightarrow> nat \<Rightarrow> nat" where
  "norm_shift a b s = (if a = 0 \<or> b \<le> a * 2 ^ s then s else norm_shift a b (Suc s))"
  by pat_completeness auto
termination
proof (relation "measure (\<lambda>(a, b, s). b - a * 2 ^ s)")
  fix a b s :: nat
  assume "\<not> (a = 0 \<or> b \<le> a * 2 ^ s)"
  then have "a * 2 ^ s < a * 2 ^ Suc s" and "a * 2 ^ s < b"
    by simp_all
  then have "b - a * 2 ^ Suc s < b - a * 2 ^ s"
    by (rule diff_less_mono2)
  then show "((a, b, Suc s), (a, b, s)) \<in> measure (\<lambda>(a, b, s). b - a * 2 ^ s)"
    by simp
qed simp

text \<open>
  The double nearest to \<open>a / b\<close>, for \<open>0 \<le> a \<le> b\<close> and \<open>0 < b\<close>: the quotient of two
  Python integers is correctly rounded, and so is the conversion of a decimal numeral.
  All quotients of this module are shares of a total, between 0 and 1, and the counts
  are lengths of lists, so that no quotient is small enough to underflow.
\<close>

definition nearest_double :: "nat \<Rightarrow> nat \<Rightarrow> int \<times> nat" where
  "nearest_double a b =
     (let e = 52 + norm_shift a b 0 in (round_half_even (int a * 2 ^ e) (int b), e))"

definition double_value :: "int \<times> nat \<Rightarrow> rat" where
  "double_value x = of_int (fst x) / 2 ^ snd x"

text \<open>\<open>a / b\<close> on two integers raises when \<open>b\<close> is zero.\<close>

definition true_divide :: "nat \<Rightarrow> nat \<Rightarrow> error + int \<times> nat" where
  "true_divide a b = (if b = 0 then Inl ZeroDivisionError else Inr (nearest_double a b))"

text \<open>
  \<open>round(x, 2)\<close> on a double between 0 and 1: the exact value of \<open>x\<close> is rounded to a
  multiple of \<open>1/100\<close>, ties to the even multiple, and the result is the double nearest
  to that decimal.
\<close>

definition round2 :: "int \<times> nat \<Rightarrow> int \<times> nat" where
  "round2 x = nearest_double (nat (round_half_even (100 * fst x) (2 ^ snd x))) 100"

subsection \<open>The table\<close>

text \<open>The first loop: the categories of the keys, each once, in the order first seen.\<close>

fun collect_categories :: "token_dict \<Rightarrow> str list \<Rightarrow> str list" where
  "collect_categories [] categories = categories"
| "collect_categories (item # rest) categories =
     collect_categories rest
       (if fst (fst item) \<notin> set categories then categories @ [fst (fst item)] else categories)"

text \<open>\<open>for token in function: if token == item[1]: token_occ[i] += 1\<close>\<close>

fun count_tokens :: "str list \<Rightarrow> str \<Rightarrow> nat \<Rightarrow> nat list \<Rightarrow> error + nat list" where
  "count_tokens [] mnemonic i token_occ = Inr token_occ"
| "count_tokens (token # rest) mnemonic i token_occ =
     (if token = mnemonic then
        (if i < length token_occ then
           count_tokens rest mnemonic i (token_occ[i := token_occ ! i + 1])
         else Inl IndexError)
      else count_tokens rest mnemonic i token_occ)"

text \<open>
  The loop over the items of the dictionary, for one function. The state is
  \<open>(i, duplicate_control, token_occ)\<close>.
\<close>

type_synonym count_state = "nat \<times> str list \<times> nat list"

fun count_items :: "str list \<Rightarrow> str list \<Rightarrow> token_dict \<Rightarrow> count_state \<Rightarrow>
    error + count_state" where
  "count_items categories function [] st = Inr st"
| "count_items categories function (item # rest) (i, duplicate_control, token_occ) =
     (case py_nth categories (int i) of
        Inl e \<Rightarrow> Inl e
      | Inr category \<Rightarrow>
          (let i1 = (if category \<noteq> fst (fst item) then i + 1 else i) in
           if snd item \<in> set function then
             (if snd item \<in> set duplicate_control then
                count_items categories function rest (i1, duplicate_control, token_occ)
              else
                (case count_tokens function (snd item) i1 token_occ of
                   Inl e \<Rightarrow> Inl e
                 | Inr token_occ1 \<Rightarrow>
                     count_items categories function rest
                       (i1, duplicate_control @ [snd item], token_occ1)))
           else count_items categories function rest (i1, duplicate_control, token_occ)))"

text \<open>\<open>for i in range(len(categories)): percentage_calc[i] = round(token_occ[i]/sum(token_occ), 2)\<close>\<close>

fun percentage_calc :: "nat list \<Rightarrow> nat list \<Rightarrow> error + rat list" where
  "percentage_calc token_occ [] = Inr []"
| "percentage_calc token_occ (i # rest) =
     (case py_nth token_occ (int i) of
        Inl e \<Rightarrow> Inl e
      | Inr occ \<Rightarrow>
          (case true_divide occ (sum_list token_occ) of
             Inl e \<Rightarrow> Inl e
           | Inr x \<Rightarrow>
               (case percentage_calc token_occ rest of
                  Inl e \<Rightarrow> Inl e
                | Inr percentages \<Rightarrow> Inr (double_value (round2 x) # percentages))))"

text \<open>The body of the loop over the functions: the row of one function.\<close>

definition function_row :: "str list \<Rightarrow> token_dict \<Rightarrow> str list \<Rightarrow> error + rat list" where
  "function_row categories token_dictionary function =
     (case count_items categories function token_dictionary
             (0, [], replicate (length categories) 0) of
        Inl e \<Rightarrow> Inl e
      | Inr (i, duplicate_control, token_occ) \<Rightarrow>
          percentage_calc token_occ [0..<length categories])"

fun percentage_list :: "str list \<Rightarrow> token_dict \<Rightarrow> str list list \<Rightarrow> error + rat list list" where
  "percentage_list categories token_dictionary [] = Inr []"
| "percentage_list categories token_dictionary (function # rest) =
     (case function_row categories token_dictionary function of
        Inl e \<Rightarrow> Inl e
      | Inr row \<Rightarrow>
          (case percentage_list categories token_dictionary rest of
             Inl e \<Rightarrow> Inl e
           | Inr rows \<Rightarrow> Inr (row # rows)))"

text \<open>
  \<open>pd.DataFrame(data=percentage_list, columns=categories)\<close>: the names of the columns and
  the rows, every row as long as the list of the columns.
\<close>

record data_frame =
  columns :: "str list"
  data :: "rat list list"

definition assembly_dataframer :: "str list list \<Rightarrow> token_dict \<Rightarrow> error + data_frame" where
  "assembly_dataframer tokenized_functions token_dictionary =
     (let categories = collect_categories token_dictionary [] in
      case percentage_list categories token_dictionary tokenized_functions of
        Inl e \<Rightarrow> Inl e
      | Inr rows \<Rightarrow> Inr \<lparr>columns = categories, data = rows\<rparr>)"

section \<open>\<open>complete_preprocessing\<close>\<close>

definition complete_preprocessing :: "glossary \<Rightarrow> str list \<Rightarrow> py_value \<Rightarrow> world \<Rightarrow>
    (error + data_frame) \<times> world" where
  "complete_preprocessing default_glossary assembly_functions instruction_glossary w =
     (let (token_list, tokenized_functions) = tokenize_instructions assembly_functions;
          (result, w1) = token_categorizer default_glossary token_list instruction_glossary w
      in case result of
           Inl e \<Rightarrow> (Inl e, w1)
         | Inr token_dict \<Rightarrow> (assembly_dataframer tokenized_functions token_dict, w1))"
section \<open>Notions used in the statements\<close>

text \<open>The tokens of one function: the commands of its fragments, without the three noise fragments.\<close>

definition tokens_of :: "str \<Rightarrow> str list" where
  "tokens_of function =
     filter (\<lambda>command. command \<notin> set [py ''['', py '']'', py '',''])
       (map command_of (split_py quote function))"

text \<open>A list without its repetitions, every element at the place of its first occurrence.\<close>

definition first_seen :: "'a list \<Rightarrow> 'a list" where
  "first_seen xs = rev (remdups (rev xs))"

text \<open>
  The tokens of a function that are the mnemonic of some slot of the dictionary and are
  not yet in \<open>duplicate_control\<close>.
\<close>

definition matched :: "token_dict \<Rightarrow> str list \<Rightarrow> str list \<Rightarrow> str list" where
  "matched d dc f = filter (\<lambda>t. t \<in> snd ` set d \<and> t \<notin> set dc) f"

text \<open>One cell of the table: the share \<open>occ / tot\<close> as the code computes and rounds it.\<close>

definition cell :: "nat \<Rightarrow> nat \<Rightarrow> rat" where
  "cell occ tot = double_value (round2 (nearest_double occ tot))"

text \<open>
  The names of the categories that a glossary file declares: its lines that contain the
  marker, without the marker and the newline, as the code enters them in \<open>features\<close>.
\<close>

definition marker_names :: "nat \<Rightarrow> str list \<Rightarrow> str list" where
  "marker_names special_char lines =
     map (\<lambda>element. remove_char newline (remove_char special_char element))
       (filter (\<lambda>element. special_char \<in> set element) lines)"

text \<open>The categories that occur in the keys of an assignment.\<close>

definition key_categories :: "token_dict \<Rightarrow> str set" where
  "key_categories token_dict = (\<lambda>item. fst (fst item)) ` set token_dict"

text \<open>
  The slots that default mode adds for the matched mnemonics of one category, from
  position \<open>e\<close> on.
\<close>

fun add_slots :: "str \<Rightarrow> nat \<Rightarrow> str list \<Rightarrow> token_dict \<Rightarrow> token_dict" where
  "add_slots category e [] token_dict = token_dict"
| "add_slots category e (mnemonic # rest) token_dict =
     add_slots category (e + 1) rest (dict_add (category, e) mnemonic token_dict)"

text \<open>The category of the first slot of an assignment that holds a mnemonic.\<close>

fun first_category :: "token_dict \<Rightarrow> str \<Rightarrow> str option" where
  "first_category [] mnemonic = None"
| "first_category (item # rest) mnemonic =
     (if snd item = mnemonic then Some (fst (fst item)) else first_category rest mnemonic)"

text \<open>
  An assignment is contiguous when the categories of its keys come in runs, no category
  in two runs: then the index \<open>i\<close> of \<open>assembly_dataframer\<close> follows the categories.
\<close>

definition contiguous :: "token_dict \<Rightarrow> bool" where
  "contiguous token_dict = distinct (remdups_adj (map (\<lambda>item. fst (fst item)) token_dict))"

text \<open>
  A default glossary is consistent when its list of categories is not empty and the
  categories of its dictionary, run by run, are the first ones of that list, in order.
\<close>

definition consistent_glossary :: "glossary \<Rightarrow> bool" where
  "consistent_glossary g =
     (let runs = remdups_adj (map (\<lambda>item. fst (fst item)) (getDictionary g)) in
      getCategories g \<noteq> [] \<and> take (length runs) (getCategories g) = runs)"

section \<open>Example inputs\<close>

text \<open>The two functions of the example scenario, each with its instructions between quotes.\<close>

definition example_functions :: "str list" where
  "example_functions =
     [[quote] @ py ''mov eax, ebx'' @ [quote, quote] @ py ''add eax, 1'' @ [quote],
      [quote] @ py ''jmp 0x10'' @ [quote, quote] @ py ''jmp 0x20'' @ [quote]]"

text \<open>Two default glossaries: one with three categories, one with a fourth that has no match.\<close>

definition three_categories :: glossary where
  "three_categories =
     \<lparr>getCategories = [py ''Data transfer'', py ''Arithmetic'', py ''Control flow''],
      getDictionary = [((py ''Data transfer'', 0), py ''mov''), ((py ''Data transfer'', 1), py ''push''),
                       ((py ''Arithmetic'', 0), py ''add''), ((py ''Arithmetic'', 1), py ''sub''),
                       ((py ''Control flow'', 0), py ''jmp'')]\<rparr>"

definition four_categories :: glossary where
  "four_categories =
     \<lparr>getCategories = [py ''Data transfer'', py ''Arithmetic'', py ''Control flow'', py ''Logical''],
      getDictionary = [((py ''Data transfer'', 0), py ''mov''), ((py ''Arithmetic'', 0), py ''add''),
                       ((py ''Control flow'', 0), py ''jmp''), ((py ''Logical'', 0), py ''and'')]\<rparr>"

definition no_glossary :: glossary where
  "no_glossary = \<lparr>getCategories = [], getDictionary = []\<rparr>"

text \<open>
  A glossary file with the marker \<open>*\<close>, one whose marker is the star U+2605, with a line
  that holds the arrow U+2192, one that declares the category \<open>A\<close> twice, and one whose
  lines are mnemonics only.
\<close>

definition glossary_file_text :: str where
  "glossary_file_text =
     py ''*A*'' @ [newline] @ py ''mov'' @ [newline] @ py ''*B*'' @ [newline] @ py ''add'' @ [newline]"

definition star_file_text :: str where
  "star_file_text =
     [0x2605] @ py ''A'' @ [0x2605, newline] @ [0x2192, newline] @ py ''mov'' @ [newline]"

definition repeated_category_file_text :: str where
  "repeated_category_file_text =
     py ''*A*'' @ [newline] @ py ''x'' @ [newline] @ py ''*B*'' @ [newline] @ py ''y'' @ [newline]
     @ py ''*A*'' @ [newline] @ py ''q'' @ [newline] @ py ''mov'' @ [newline]
     @ py ''*C*'' @ [newline] @ py ''mov'' @ [newline]"

definition unmarked_file_text :: str where
  "unmarked_file_text = py ''mov'' @ [newline] @ py ''add'' @ [newline]"

definition no_files :: world where
  "no_files = \<lparr>files = (\<lambda>path. Inl FileNotFoundError), opened = [], printed = []\<rparr>"

text \<open>The world with one readable file, nothing opened and nothing printed.\<close>

definition one_file :: "str \<Rightarrow> str \<Rightarrow> world" where
  "one_file name contents =
     \<lparr>files = (\<lambda>path. if path = name then Inr contents else Inl FileNotFoundError),
      opened = [], printed = []\<rparr>"
section \<open>The tokenizer in closed form\<close>

lemma split_py_not_Nil: "split_py sep s \<noteq> []"
  by (induction s) (auto split: list.splits)

lemma first_seen_snoc:
  "first_seen (xs @ [x]) = (if x \<in> set xs then first_seen xs else first_seen xs @ [x])"
  by (simp add: first_seen_def)

lemma set_first_seen: "set (first_seen xs) = set xs"
  by (simp add: first_seen_def)

lemma tokenize_fragments_eq:
  "tokenize_fragments frs (first_seen pre, toks) =
     (first_seen (pre @ filter (\<lambda>c. c \<notin> set [py ''['', py '']'', py '','']) (map command_of frs)),
      toks @ filter (\<lambda>c. c \<notin> set [py ''['', py '']'', py '','']) (map command_of frs))"
proof (induction frs arbitrary: pre toks)
  case Nil
  then show ?case by simp
next
  case (Cons fr frs)
  show ?case
  proof (cases "command_of fr \<in> set [py ''['', py '']'', py '','']")
    case True
    then show ?thesis using Cons.IH [of pre toks] by (auto simp add: Let_def)
  next
    case False
    have "(if command_of fr \<notin> set (first_seen pre) then first_seen pre @ [command_of fr]
           else first_seen pre) = first_seen (pre @ [command_of fr])"
      by (simp add: first_seen_snoc set_first_seen)
    then show ?thesis
      using False Cons.IH [of "pre @ [command_of fr]" "toks @ [command_of fr]"]
      by (simp add: Let_def)
  qed
qed

lemma tokenize_functions_eq:
  "tokenize_functions fs (first_seen pre) =
     (first_seen (pre @ concat (map tokens_of fs)), map tokens_of fs)"
proof (induction fs arbitrary: pre)
  case Nil
  then show ?case by simp
next
  case (Cons f fs)
  show ?case
    using Cons.IH [of "pre @ tokens_of f"] tokenize_fragments_eq [of "split_py quote f" pre "[]"]
    by (simp add: tokens_of_def)
qed

lemma tokenize_instructions_eq:
  "tokenize_instructions fs = (first_seen (concat (map tokens_of fs)), map tokens_of fs)"
  using tokenize_functions_eq [of fs "[]"] by (simp add: tokenize_instructions_def first_seen_def)

lemma tokens_of_empty: "tokens_of [] = [[]]"
  by (simp add: tokens_of_def command_of_def py_def)

lemmas tokenizer_eval = tokenize_instructions_def command_of_def quote_def space_def Let_def py_def

lemma tokenize_example:
  "tokenize_instructions example_functions =
     ([[], py ''mov'', py ''add'', py ''jmp''],
      [[[], py ''mov'', [], py ''add'', []], [[], py ''jmp'', [], py ''jmp'', []]])"
  by (simp add: example_functions_def tokenizer_eval)
section \<open>The counting loops\<close>

lemma collect_categories_eq:
  "collect_categories d (first_seen pre) = first_seen (pre @ map (\<lambda>item. fst (fst item)) d)"
proof (induction d arbitrary: pre)
  case Nil
  then show ?case by simp
next
  case (Cons item d)
  have "(if fst (fst item) \<notin> set (first_seen pre) then first_seen pre @ [fst (fst item)]
         else first_seen pre) = first_seen (pre @ [fst (fst item)])"
    by (simp add: first_seen_snoc set_first_seen)
  then show ?case using Cons.IH [of "pre @ [fst (fst item)]"] by simp
qed

lemma collect_categories_first_seen:
  "collect_categories d [] = first_seen (map (\<lambda>item. fst (fst item)) d)"
  using collect_categories_eq [of d "[]"] by (simp add: first_seen_def)

lemma length_first_seen: "length (first_seen xs) = card (set xs)"
  by (simp add: first_seen_def length_remdups_card_conv)

lemma count_tokens_in_range:
  "i < length occ \<Longrightarrow>
   count_tokens f v i occ = Inr (occ[i := occ ! i + count_list f v])"
  by (induction f arbitrary: occ) auto

lemma count_tokens_out_of_range:
  "v \<in> set f \<Longrightarrow> \<not> i < length occ \<Longrightarrow> count_tokens f v i occ = Inl IndexError"
  by (induction f arbitrary: occ) auto

lemma count_tokens_absent:
  "v \<notin> set f \<Longrightarrow> count_tokens f v i occ = Inr occ"
  by (induction f arbitrary: occ) auto

lemma count_tokens_error:
  "count_tokens f v i occ = Inl e \<Longrightarrow> e = IndexError"
  by (induction f arbitrary: occ) (auto split: if_splits)

lemma sum_list_update_add:
  "i < length (occ::nat list) \<Longrightarrow> sum_list (occ[i := occ ! i + n]) = sum_list occ + n"
  by (simp add: sum_list_update)

lemma count_tokens_sum:
  "count_tokens f v i occ = Inr occ1 \<Longrightarrow> v \<in> set f \<Longrightarrow>
   length occ1 = length occ \<and> sum_list occ1 = sum_list occ + count_list f v"
  using count_tokens_in_range [of i occ f v] count_tokens_out_of_range [of v f i occ]
  by (cases "i < length occ") (auto simp: sum_list_update_add)

lemma count_items_error:
  "count_items cats f d st = Inl e \<Longrightarrow> e = IndexError"
proof (induction d arbitrary: st)
  case Nil
  then show ?case by simp
next
  case (Cons item d)
  obtain i dc occ where st: "st = (i, dc, occ)" by (cases st) auto
  show ?case
    using Cons.prems Cons.IH count_tokens_error [of f "snd item" _ occ]
    unfolding st
    by (auto simp: py_nth_def Let_def split: if_splits sum.splits)
qed

lemma count_list_filter: "count_list f v = length (filter (\<lambda>t. t = v) f)"
  by (induction f) auto

lemma matched_step:
  "v \<notin> set dc \<Longrightarrow>
   count_list f v + length (matched d (dc @ [v]) f) = length (matched ((k, v) # d) dc f)"
  unfolding matched_def count_list_filter
  by (induction f) auto

lemma matched_skip_dup:
  "v \<in> set dc \<Longrightarrow> matched ((k, v) # d) dc f = matched d dc f"
  unfolding matched_def by (induction f) auto

lemma matched_skip_absent:
  "v \<notin> set f \<Longrightarrow> matched ((k, v) # d) dc f = matched d dc f"
  unfolding matched_def by (induction f) auto

lemma count_items_sum:
  "count_items cats f d (i, dc, occ) = Inr (i', dc', occ') \<Longrightarrow>
   length occ' = length occ \<and> sum_list occ' = sum_list occ + length (matched d dc f)"
proof (induction d arbitrary: i dc occ)
  case Nil
  then show ?case by (simp add: matched_def)
next
  case (Cons item d)
  obtain k v where item: "item = (k, v)" by (cases item) auto
  from Cons.prems obtain c where c: "py_nth cats (int i) = Inr c"
    by (auto split: sum.splits)
  define i1 where "i1 = (if c \<noteq> fst k then i + 1 else i)"
  show ?case
  proof (cases "v \<in> set f")
    case False
    then have "count_items cats f d (i1, dc, occ) = Inr (i', dc', occ')"
      using Cons.prems c by (simp add: item i1_def Let_def)
    from Cons.IH [OF this] show ?thesis
      using False by (simp add: item matched_skip_absent)
  next
    case True
    show ?thesis
    proof (cases "v \<in> set dc")
      case dup: True
      then have "count_items cats f d (i1, dc, occ) = Inr (i', dc', occ')"
        using Cons.prems c True by (simp add: item i1_def Let_def)
      from Cons.IH [OF this] show ?thesis
        using dup by (simp add: item matched_skip_dup)
    next
      case new: False
      from Cons.prems c True new obtain occ1 where
        occ1: "count_tokens f v i1 occ = Inr occ1" and
        rest: "count_items cats f d (i1, dc @ [v], occ1) = Inr (i', dc', occ')"
        by (auto simp: item i1_def Let_def split: sum.splits)
      from count_tokens_sum [OF occ1 True] Cons.IH [OF rest] matched_step [OF new, of f d k]
      show ?thesis by (simp add: item)
    qed
  qed
qed

section \<open>The error of the division and of the rounding\<close>

lemma round_half_even_int:
  assumes "0 < q"
  shows "\<bar>2 * (round_half_even p q * q - p)\<bar> \<le> q"
proof -
  define d r where "d = p div q" and "r = p mod q"
  have p: "p = d * q + r" by (simp add: d_def r_def)
  have r: "0 \<le> r" "r < q" using assms by (simp_all add: r_def)
  have "round_half_even p q = d \<and> 2 * r \<le> q \<or> round_half_even p q = d + 1 \<and> q \<le> 2 * r"
    by (auto simp: round_half_even_def Let_def d_def r_def)
  then show ?thesis
  proof
    assume a: "round_half_even p q = d \<and> 2 * r \<le> q"
    then have "round_half_even p q * q - p = - r" using p by simp
    then show ?thesis using a r by simp
  next
    assume a: "round_half_even p q = d + 1 \<and> q \<le> 2 * r"
    then have "round_half_even p q * q - p = q - r" using p by (simp add: algebra_simps)
    then show ?thesis using a r by simp
  qed
qed

lemma round_half_even_nonneg: "0 \<le> p \<Longrightarrow> 0 < q \<Longrightarrow> 0 \<le> round_half_even p q"
  by (auto simp: round_half_even_def Let_def pos_imp_zdiv_nonneg_iff)

lemma round_half_even_rat:
  assumes "0 < q"
  shows "\<bar>(of_int (round_half_even p q) :: rat) - of_int p / of_int q\<bar> \<le> 1 / 2"
proof -
  let ?k = "round_half_even p q"
  have q: "(0::rat) < of_int q" using assms by simp
  have "(of_int \<bar>2 * (?k * q - p)\<bar> :: rat) \<le> of_int q"
    using round_half_even_int [OF assms, of p] by (simp only: of_int_le_iff)
  then have "\<bar>2 * ((of_int ?k :: rat) * of_int q - of_int p)\<bar> \<le> of_int q"
    by (simp only: of_int_abs of_int_mult of_int_diff of_int_numeral)
  then have "2 * \<bar>(of_int ?k :: rat) * of_int q - of_int p\<bar> \<le> of_int q"
    by (simp only: abs_mult abs_numeral)
  moreover have "(of_int ?k :: rat) - of_int p / of_int q = (of_int ?k * of_int q - of_int p) / of_int q"
    using q by (simp add: field_simps)
  ultimately show ?thesis
    using q by (simp add: abs_divide field_simps del: of_int_diff of_int_mult)
qed

lemma nearest_double_fst_nonneg: "0 < b \<Longrightarrow> 0 \<le> fst (nearest_double a b)"
  by (simp add: nearest_double_def Let_def round_half_even_nonneg)

lemma power_ge_52: "(2::rat) ^ 52 \<le> 2 ^ (52 + s)"
  by (rule power_increasing) simp_all

lemma nearest_double_error:
  assumes "0 < b"
  shows "\<bar>double_value (nearest_double a b) - of_nat a / of_nat b\<bar> \<le> 1 / 2 ^ 53"
proof -
  define e where "e = 52 + norm_shift a b 0"
  define m where "m = round_half_even (int a * 2 ^ e) (int b)"
  have dv: "double_value (nearest_double a b) = of_int m / 2 ^ e"
    by (simp add: double_value_def nearest_double_def Let_def e_def m_def)
  have "\<bar>(of_int m :: rat) - of_int (int a * 2 ^ e) / of_int (int b)\<bar> \<le> 1 / 2"
    unfolding m_def using assms by (intro round_half_even_rat) simp
  then have h: "\<bar>(of_int m :: rat) - of_nat a * 2 ^ e / of_nat b\<bar> \<le> 1 / 2"
    by simp
  have pos: "(0::rat) < 2 ^ e" by simp
  have "of_int m / 2 ^ e - of_nat a / of_nat b = ((of_int m :: rat) - of_nat a * 2 ^ e / of_nat b) / 2 ^ e"
    by (simp add: field_simps)
  then have "\<bar>of_int m / 2 ^ e - of_nat a / of_nat b\<bar> = \<bar>(of_int m :: rat) - of_nat a * 2 ^ e / of_nat b\<bar> / 2 ^ e"
    by (simp add: abs_divide)
  also have "\<dots> \<le> (1 / 2) / 2 ^ e"
    using h pos by (intro divide_right_mono) simp_all
  also have "\<dots> \<le> (1 / 2) / 2 ^ 52"
    using power_ge_52 [of "norm_shift a b 0"] unfolding e_def
    by (intro divide_left_mono) simp_all
  finally show ?thesis unfolding dv by simp
qed

lemma round2_error:
  assumes "0 \<le> fst x"
  shows "\<bar>double_value (round2 x) - double_value x\<bar> \<le> 1 / 200 + 1 / 2 ^ 53"
proof -
  define k where "k = round_half_even (100 * fst x) (2 ^ snd x)"
  have k0: "0 \<le> k" unfolding k_def using assms by (intro round_half_even_nonneg) simp_all
  have "\<bar>(of_int k :: rat) - of_int (100 * fst x) / of_int (2 ^ snd x)\<bar> \<le> 1 / 2"
    unfolding k_def by (intro round_half_even_rat) simp
  then have "\<bar>(of_int k :: rat) - 100 * double_value x\<bar> \<le> 1 / 2"
    by (simp add: double_value_def)
  then have a: "\<bar>(of_int k :: rat) / 100 - double_value x\<bar> \<le> 1 / 200"
    by (simp add: abs_if split: if_splits)
  have "\<bar>double_value (nearest_double (nat k) 100) - of_nat (nat k) / of_nat 100\<bar> \<le> 1 / 2 ^ 53"
    by (intro nearest_double_error) simp
  then have b: "\<bar>double_value (round2 x) - of_int k / 100\<bar> \<le> 1 / 2 ^ 53"
    using k0 by (simp add: round2_def k_def)
  from a b show ?thesis by linarith
qed

lemma cell_error:
  assumes "0 < tot"
  shows "\<bar>cell occ tot - of_nat occ / of_nat tot\<bar> \<le> 1 / 200 + 1 / 2 ^ 52"
proof -
  have a: "\<bar>double_value (round2 (nearest_double occ tot)) - double_value (nearest_double occ tot)\<bar>
          \<le> 1 / 200 + 1 / 2 ^ 53"
    using assms by (intro round2_error nearest_double_fst_nonneg)
  have b: "\<bar>double_value (nearest_double occ tot) - of_nat occ / of_nat tot\<bar> \<le> 1 / 2 ^ 53"
    using assms by (rule nearest_double_error)
  have c: "(1::rat) / 2 ^ 53 + 1 / 2 ^ 53 = 1 / 2 ^ 52" by simp
  from a b c show ?thesis unfolding cell_def by linarith
qed

lemma percentage_calc_eq:
  "\<forall>i \<in> set is. i < length occ \<Longrightarrow>
   percentage_calc occ is =
     (if is = [] then Inr []
      else if sum_list occ = 0 then Inl ZeroDivisionError
      else Inr (map (\<lambda>i. cell (occ ! i) (sum_list occ)) is))"
  by (induction "is") (auto simp: py_nth_def true_divide_def cell_def)

lemma percentage_calc_all:
  "percentage_calc occ [0..<length occ] =
     (if occ = [] then Inr []
      else if sum_list occ = 0 then Inl ZeroDivisionError
      else Inr (map (\<lambda>c. cell c (sum_list occ)) occ))"
proof -
  have "map (\<lambda>i. cell (occ ! i) (sum_list occ)) [0..<length occ] = map (\<lambda>c. cell c (sum_list occ)) occ"
    by (rule nth_equalityI) simp_all
  then show ?thesis
    using percentage_calc_eq [of "[0..<length occ]" occ] by auto
qed

section \<open>The rows of the table\<close>

lemma matched_none:
  "\<forall>item \<in> set d. snd item \<notin> set f \<Longrightarrow> matched d dc f = []"
  unfolding matched_def by (auto simp: filter_empty_conv)

lemma matched_some:
  "item \<in> set d \<Longrightarrow> snd item \<in> set f \<Longrightarrow> matched d [] f \<noteq> []"
  unfolding matched_def by (auto simp: filter_empty_conv intro!: bexI [of _ "snd item"] bexI [of _ item])

lemma collect_categories_Nil_iff: "collect_categories d [] = [] \<longleftrightarrow> d = []"
  by (simp add: collect_categories_first_seen first_seen_def)

lemma function_row_cases:
  "(function_row cats d f = Inl IndexError \<and>
      count_items cats f d (0, [], replicate (length cats) 0) = Inl IndexError)
   \<or> (\<exists>i dc occ. count_items cats f d (0, [], replicate (length cats) 0) = Inr (i, dc, occ)
        \<and> length occ = length cats \<and> sum_list occ = length (matched d [] f)
        \<and> function_row cats d f =
            (if cats = [] then Inr []
             else if sum_list occ = 0 then Inl ZeroDivisionError
             else Inr (map (\<lambda>c. cell c (sum_list occ)) occ)))"
proof (cases "count_items cats f d (0, [], replicate (length cats) 0)")
  case (Inl e)
  then show ?thesis using count_items_error [OF Inl] by (simp add: function_row_def)
next
  case (Inr st)
  obtain i dc occ where st: "st = (i, dc, occ)" by (cases st) auto
  from count_items_sum [OF Inr [unfolded st]]
  have len: "length occ = length cats" and s: "sum_list occ = length (matched d [] f)"
    by simp_all
  have "function_row cats d f = percentage_calc occ [0..<length occ]"
    using Inr st len by (simp add: function_row_def)
  then show ?thesis
    using Inr st len s percentage_calc_all [of occ] by auto
qed

lemma function_row_Inr:
  assumes "function_row cats d f = Inr row" and "cats \<noteq> []"
  shows "\<exists>occ tot. tot = sum_list occ \<and> length occ = length cats \<and> 0 < tot \<and>
           tot = length (matched d [] f) \<and> row = map (\<lambda>c. cell c tot) occ"
proof -
  from function_row_cases [of cats d f] assms(1)
  obtain i dc occ where len: "length occ = length cats"
    and s: "sum_list occ = length (matched d [] f)"
    and r: "Inr row = (if cats = [] then Inr []
             else if sum_list occ = 0 then Inl ZeroDivisionError
             else Inr (map (\<lambda>c. cell c (sum_list occ)) occ))"
    by auto
  define tot where "tot = sum_list occ"
  from r assms(2) have "0 < tot \<and> row = map (\<lambda>c. cell c tot) occ"
    unfolding tot_def [symmetric] by (cases "tot = 0") simp_all
  with len s tot_def show ?thesis by blast
qed

lemma function_row_error:
  "function_row cats d f = Inl e \<Longrightarrow> e = IndexError \<or> e = ZeroDivisionError"
  using function_row_cases [of cats d f] by (auto split: if_splits)

lemma function_row_unmatched:
  assumes "cats \<noteq> []" and "\<forall>item \<in> set d. snd item \<notin> set f"
  shows "function_row cats d f = Inl IndexError \<or> function_row cats d f = Inl ZeroDivisionError"
  using function_row_cases [of cats d f] assms matched_none [OF assms(2), of "[]"]
  by auto

lemma percentage_list_error:
  "percentage_list cats d tfs = Inl e \<Longrightarrow> \<exists>f \<in> set tfs. function_row cats d f = Inl e"
  by (induction tfs) (auto split: sum.splits)

lemma percentage_list_fails:
  "f \<in> set tfs \<Longrightarrow> function_row cats d f = Inl e \<Longrightarrow> \<exists>e'. percentage_list cats d tfs = Inl e'"
  by (induction tfs) (auto split: sum.splits)

lemma percentage_list_rows:
  "percentage_list cats d tfs = Inr rows \<Longrightarrow>
   length rows = length tfs \<and> (\<forall>i < length tfs. function_row cats d (tfs ! i) = Inr (rows ! i))"
proof (induction tfs arbitrary: rows)
  case Nil
  then show ?case by simp
next
  case (Cons f tfs)
  from Cons.prems obtain row rows' where
    row: "function_row cats d f = Inr row" and
    rest: "percentage_list cats d tfs = Inr rows'" and
    rows: "rows = row # rows'"
    by (auto split: sum.splits)
  from Cons.IH [OF rest] row rows show ?case
    by (auto simp: nth_Cons split: nat.splits)
qed

lemma assembly_dataframer_Inr:
  "assembly_dataframer tfs d = Inr table \<Longrightarrow>
   columns table = collect_categories d [] \<and>
   percentage_list (collect_categories d []) d tfs = Inr (data table)"
  by (auto simp: assembly_dataframer_def Let_def split: sum.splits)

lemma abs_sum_list_diff:
  fixes g h :: "'a \<Rightarrow> rat"
  assumes "\<forall>x \<in> set xs. \<bar>g x - h x\<bar> \<le> eps"
  shows "\<bar>sum_list (map g xs) - sum_list (map h xs)\<bar> \<le> of_nat (length xs) * eps"
  using assms
proof (induction xs)
  case Nil
  then show ?case by simp
next
  case (Cons x xs)
  then have a: "\<bar>g x - h x\<bar> \<le> eps"
    and b: "\<bar>sum_list (map g xs) - sum_list (map h xs)\<bar> \<le> of_nat (length xs) * eps"
    by simp_all
  have "of_nat (length (x # xs)) * eps = eps + of_nat (length xs) * eps"
    by (simp add: algebra_simps)
  with a b show ?case by (simp add: abs_if split: if_splits)
qed

lemma sum_list_shares:
  "0 < sum_list occ \<Longrightarrow>
   sum_list (map (\<lambda>c. (of_nat c :: rat) / of_nat (sum_list occ)) occ) = 1"
proof -
  assume pos: "0 < sum_list occ"
  have "sum_list (map (\<lambda>c. (of_nat c :: rat) / of_nat t) occ) = of_nat (sum_list occ) / of_nat t" for t
    by (induction occ) (simp_all add: add_divide_distrib)
  from this [of "sum_list occ"] show ?thesis
    using pos by (simp del: sum_list_eq_0_iff)
qed

lemmas eval_simps = assembly_dataframer_def function_row_def py_nth_def true_divide_def round2_def
  nearest_double_def round_half_even_def double_value_def Let_def py_def

lemma count_items_append:
  "count_items cats f (d1 @ d2) st =
     (case count_items cats f d1 st of Inl e \<Rightarrow> Inl e | Inr st1 \<Rightarrow> count_items cats f d2 st1)"
proof (induction d1 arbitrary: st)
  case Nil
  then show ?case by simp
next
  case (Cons item d1)
  obtain i dc occ where st: "st = (i, dc, occ)" by (cases st) auto
  show ?case unfolding st using Cons.IH
    by (simp add: Let_def split: sum.splits)
qed

lemma count_items_duplicate_control:
  "count_items cats f d (i, dc, occ) = Inr (i', dc', occ') \<Longrightarrow>
   set dc' = set dc \<union> (snd ` set d \<inter> set f)"
proof (induction d arbitrary: i dc occ)
  case Nil
  then show ?case by simp
next
  case (Cons item d)
  from Cons.prems obtain c where c: "py_nth cats (int i) = Inr c"
    by (auto split: sum.splits)
  define i1 where "i1 = (if c \<noteq> fst (fst item) then i + 1 else i)"
  consider (absent) "snd item \<notin> set f" | (dup) "snd item \<in> set f" "snd item \<in> set dc"
    | (new) "snd item \<in> set f" "snd item \<notin> set dc" by blast
  then show ?case
  proof cases
    case absent
    then have "count_items cats f d (i1, dc, occ) = Inr (i', dc', occ')"
      using Cons.prems c by (simp add: i1_def Let_def)
    from Cons.IH [OF this] absent show ?thesis by auto
  next
    case dup
    then have "count_items cats f d (i1, dc, occ) = Inr (i', dc', occ')"
      using Cons.prems c by (simp add: i1_def Let_def)
    from Cons.IH [OF this] dup show ?thesis by auto
  next
    case new
    with Cons.prems c obtain occ1 where
      "count_items cats f d (i1, dc @ [snd item], occ1) = Inr (i', dc', occ')"
      by (auto simp: i1_def Let_def split: sum.splits)
    from Cons.IH [OF this] new show ?thesis by auto
  qed
qed

lemma count_items_skip:
  "m \<notin> set f \<or> m \<in> set dc \<Longrightarrow>
   count_items cats f ((k, m) # d) (i, dc, occ) =
     (case py_nth cats (int i) of
        Inl e \<Rightarrow> Inl e
      | Inr c \<Rightarrow> count_items cats f d (if c \<noteq> fst k then i + 1 else i, dc, occ))"
  by (auto simp: Let_def split: sum.splits)

lemma percentage_list_no_categories:
  "percentage_list [] [] tfs = Inr (replicate (length tfs) [])"
  by (induction tfs) (simp_all add: function_row_def)

lemma assembly_dataframer_error:
  "assembly_dataframer tfs d = Inl e \<Longrightarrow> e = IndexError \<or> e = ZeroDivisionError"
  using percentage_list_error [of "collect_categories d []" d tfs e] function_row_error
  by (auto simp: assembly_dataframer_def Let_def split: sum.splits)

lemma dataframe_example:
  "assembly_dataframer [[[], py ''mov'', [], py ''add'', []], [[], py ''jmp'', [], py ''jmp'', []]]
     [((py ''Data transfer'', 0), py ''mov''), ((py ''Arithmetic'', 0), py ''add''),
      ((py ''Control flow'', 0), py ''jmp'')]
   = Inr \<lparr>columns = [py ''Data transfer'', py ''Arithmetic'', py ''Control flow''],
          data = [[1 / 2, 1 / 2, 0], [0, 0, 1]]\<rparr>"
  by (simp add: eval_simps)

lemma columns_card:
  "assembly_dataframer tfs d = Inr table \<Longrightarrow> length (columns table) = card (key_categories d)"
  using assembly_dataframer_Inr [of tfs d table]
  by (simp add: collect_categories_first_seen length_first_seen key_categories_def)

lemma assembly_dataframer_no_functions:
  "assembly_dataframer [] d = Inr \<lparr>columns = collect_categories d [], data = []\<rparr>"
  by (simp add: assembly_dataframer_def)

lemma remdups_adj_snoc:
  "remdups_adj (xs @ [x]) =
     (if xs \<noteq> [] \<and> last xs = x then remdups_adj xs else remdups_adj xs @ [x])"
  by (induction xs rule: remdups_adj.induct) auto

lemma first_seen_remdups_adj:
  "distinct (remdups_adj xs) \<Longrightarrow> first_seen xs = remdups_adj xs"
proof (induction xs rule: rev_induct)
  case Nil
  then show ?case by (simp add: first_seen_def)
next
  case (snoc x xs)
  show ?case
  proof (cases "xs \<noteq> [] \<and> last xs = x")
    case True
    then have "x \<in> set xs" by (metis last_in_set)
    with snoc True show ?thesis by (simp add: remdups_adj_snoc first_seen_snoc)
  next
    case False
    with snoc.prems have d: "distinct (remdups_adj xs)" and "x \<notin> set xs"
      by (simp_all add: remdups_adj_snoc)
    with snoc.IH False show ?thesis by (simp add: remdups_adj_snoc first_seen_snoc)
  qed
qed

lemma count_items_in_range:
  assumes "drop i cats = remdups_adj (c0 # map (\<lambda>item. fst (fst item)) d)"
    and "length occ = length cats"
  shows "\<exists>st. count_items cats f d (i, dc, occ) = Inr st"
  using assms
proof (induction d arbitrary: i c0 dc occ)
  case Nil
  then show ?case by simp
next
  case (Cons item d)
  let ?c = "fst (fst item)"
  from Cons.prems(1) have i: "i < length cats" and c0: "cats ! i = c0"
    by (metis drop_eq_Nil not_le remdups_adj_Nil_iff list.distinct(1),
        metis Cons.prems(1) hd_drop_conv_nth drop_eq_Nil not_le remdups_adj_Nil_iff
          list.distinct(1) hd_remdups_adj list.sel(1))
  then have nth: "py_nth cats (int i) = Inr c0" by (simp add: py_nth_def)
  define i1 where "i1 = (if c0 \<noteq> ?c then i + 1 else i)"
  have next_state: "drop i1 cats = remdups_adj (?c # map (\<lambda>item. fst (fst item)) d)"
  proof (cases "c0 = ?c")
    case True
    with Cons.prems(1) show ?thesis by (simp add: i1_def)
  next
    case False
    with Cons.prems(1) have "drop i cats = c0 # remdups_adj (?c # map (\<lambda>item. fst (fst item)) d)"
      by simp
    then have "drop (Suc i) cats = remdups_adj (?c # map (\<lambda>item. fst (fst item)) d)"
      by (metis drop_Suc list.sel(3) tl_drop)
    with False show ?thesis by (simp add: i1_def)
  qed
  then have i1: "i1 < length occ"
    using Cons.prems(2) by (metis drop_eq_Nil not_le remdups_adj_Nil_iff list.distinct(1))
  have a: "\<exists>st. count_items cats f d (i1, dc', occ') = Inr st" if "length occ' = length cats"
    for dc' occ'
    using next_state that by (rule Cons.IH)
  show ?case
  proof (cases "snd item \<in> set f \<and> snd item \<notin> set dc")
    case False
    then show ?thesis
      using nth a [OF Cons.prems(2), of dc] by (auto simp: i1_def Let_def)
  next
    case True
    let ?occ1 = "occ[i1 := occ ! i1 + count_list f (snd item)]"
    have "count_tokens f (snd item) i1 occ = Inr ?occ1"
      using i1 by (rule count_tokens_in_range)
    moreover have "length ?occ1 = length cats" using Cons.prems(2) by simp
    ultimately show ?thesis
      using nth True a [of ?occ1 "dc @ [snd item]"] by (auto simp: i1_def Let_def)
  qed
qed

lemma count_items_contiguous:
  assumes "contiguous d"
  shows "\<exists>st. count_items (collect_categories d []) f d
           (0, [], replicate (length (collect_categories d [])) 0) = Inr st"
proof (cases d)
  case Nil
  then show ?thesis by simp
next
  case (Cons item rest)
  have "collect_categories d [] = remdups_adj (map (\<lambda>item. fst (fst item)) d)"
    using assms by (simp add: collect_categories_first_seen contiguous_def first_seen_remdups_adj)
  then have "drop 0 (collect_categories d []) =
      remdups_adj (fst (fst item) # map (\<lambda>item. fst (fst item)) d)"
    by (simp add: Cons)
  then show ?thesis by (rule count_items_in_range) simp
qed

lemma function_row_contiguous:
  assumes "contiguous d"
  shows "function_row (collect_categories d []) d f \<noteq> Inl IndexError"
proof -
  from count_items_contiguous [OF assms, of f] obtain st where
    "count_items (collect_categories d []) f d
       (0, [], replicate (length (collect_categories d [])) 0) = Inr st" by blast
  with function_row_cases [of "collect_categories d []" d f] show ?thesis
    by (auto split: if_splits)
qed

lemma assembly_dataframer_contiguous_error:
  assumes "contiguous d" and "assembly_dataframer tfs d = Inl e"
  shows "e = ZeroDivisionError"
proof -
  from assms(2) have "percentage_list (collect_categories d []) d tfs = Inl e"
    by (auto simp: assembly_dataframer_def Let_def split: sum.splits)
  from percentage_list_error [OF this] obtain f where
    f: "function_row (collect_categories d []) d f = Inl e" by blast
  with function_row_error [OF f] function_row_contiguous [OF assms(1), of f]
  show ?thesis by auto
qed

lemma percentage_list_succeeds:
  "\<forall>f \<in> set tfs. \<exists>row. function_row cats d f = Inr row \<Longrightarrow>
   \<exists>rows. percentage_list cats d tfs = Inr rows"
  by (induction tfs) auto

lemma assembly_dataframer_returns:
  assumes "contiguous d" and "\<forall>f \<in> set tfs. \<exists>item \<in> set d. snd item \<in> set f"
  shows "\<exists>table. assembly_dataframer tfs d = Inr table"
proof -
  let ?cats = "collect_categories d []"
  have "\<exists>row. function_row ?cats d f = Inr row" if f: "f \<in> set tfs" for f
  proof -
    from assms(2) f obtain item where item: "item \<in> set d" "snd item \<in> set f" by blast
    from matched_some [OF item] have m: "length (matched d [] f) \<noteq> 0" by simp
    from item(1) have ne: "?cats \<noteq> []" by (auto simp: collect_categories_Nil_iff)
    from function_row_cases [of ?cats d f] function_row_contiguous [OF assms(1), of f] m ne
    show ?thesis by (auto simp del: sum_list_eq_0_iff)
  qed
  then have "\<exists>rows. percentage_list ?cats d tfs = Inr rows"
    by (intro percentage_list_succeeds) blast
  then show ?thesis by (auto simp: assembly_dataframer_def)
qed

lemma first_slot_split:
  assumes "snd item \<notin> set dc"
  shows "length (filter (\<lambda>t. t \<notin> set dc \<and> first_category (item # d) t = Some c) f) =
         (if fst (fst item) = c then count_list f (snd item) else 0) +
         length (filter (\<lambda>t. t \<notin> set (dc @ [snd item]) \<and> first_category d t = Some c) f)"
  using assms by (induction f) auto

lemma first_slot_skip:
  assumes "snd item \<notin> set f \<or> snd item \<in> set dc"
  shows "filter (\<lambda>t. t \<notin> set dc \<and> first_category (item # d) t = Some c) f =
         filter (\<lambda>t. t \<notin> set dc \<and> first_category d t = Some c) f"
  using assms by (intro filter_cong) auto

lemma count_items_columns:
  assumes "drop i cats = remdups_adj (c0 # map (\<lambda>item. fst (fst item)) d)"
    and "distinct cats" and "length occ = length cats"
    and "count_items cats f d (i, dc, occ) = Inr (i', dc', occ')"
    and "j < length cats"
  shows "occ' ! j = occ ! j +
           length (filter (\<lambda>t. t \<notin> set dc \<and> first_category d t = Some (cats ! j)) f)"
  using assms(1,3,4)
proof (induction d arbitrary: i c0 dc occ)
  case Nil
  then show ?case by simp
next
  case (Cons item d)
  let ?c = "fst (fst item)"
  from Cons.prems(1) have i: "i < length cats" and c0: "cats ! i = c0"
    by (metis drop_eq_Nil not_le remdups_adj_Nil_iff list.distinct(1),
        metis Cons.prems(1) hd_drop_conv_nth drop_eq_Nil not_le remdups_adj_Nil_iff
          list.distinct(1) hd_remdups_adj list.sel(1))
  then have nth: "py_nth cats (int i) = Inr c0" by (simp add: py_nth_def)
  define i1 where "i1 = (if c0 \<noteq> ?c then i + 1 else i)"
  have next_state: "drop i1 cats = remdups_adj (?c # map (\<lambda>item. fst (fst item)) d)"
  proof (cases "c0 = ?c")
    case True
    with Cons.prems(1) show ?thesis by (simp add: i1_def)
  next
    case False
    with Cons.prems(1) have "drop i cats = c0 # remdups_adj (?c # map (\<lambda>item. fst (fst item)) d)"
      by simp
    then have "drop (Suc i) cats = remdups_adj (?c # map (\<lambda>item. fst (fst item)) d)"
      by (metis drop_Suc list.sel(3) tl_drop)
    with False show ?thesis by (simp add: i1_def)
  qed
  then have i1: "i1 < length cats" and ci1: "cats ! i1 = ?c"
    by (metis drop_eq_Nil not_le remdups_adj_Nil_iff list.distinct(1),
        metis next_state hd_drop_conv_nth drop_eq_Nil not_le remdups_adj_Nil_iff
          list.distinct(1) hd_remdups_adj list.sel(1))
  have same: "?c = cats ! j \<longleftrightarrow> j = i1"
    using assms(2,5) i1 ci1 by (auto simp: nth_eq_iff_index_eq)
  show ?case
  proof (cases "snd item \<in> set f \<and> snd item \<notin> set dc")
    case False
    then have "count_items cats f d (i1, dc, occ) = Inr (i', dc', occ')"
      using Cons.prems(3) nth by (auto simp: i1_def Let_def split: if_splits)
    from Cons.IH [OF next_state Cons.prems(2) this] first_slot_skip [of item f dc d "cats ! j"] False
    show ?thesis by auto
  next
    case True
    let ?occ1 = "occ[i1 := occ ! i1 + count_list f (snd item)]"
    have ct: "count_tokens f (snd item) i1 occ = Inr ?occ1"
      using i1 Cons.prems(2) by (intro count_tokens_in_range) simp
    then have "count_items cats f d (i1, dc @ [snd item], ?occ1) = Inr (i', dc', occ')"
      using Cons.prems(3) nth True by (auto simp: i1_def Let_def)
    moreover have "length ?occ1 = length cats" using Cons.prems(2) by simp
    ultimately have "occ' ! j = ?occ1 ! j +
        length (filter (\<lambda>t. t \<notin> set (dc @ [snd item]) \<and> first_category d t = Some (cats ! j)) f)"
      using next_state by (intro Cons.IH)
    moreover have "?occ1 ! j = occ ! j + (if ?c = cats ! j then count_list f (snd item) else 0)"
      using same assms(5) Cons.prems(2) by (auto simp: nth_list_update)
    ultimately show ?thesis
      using first_slot_split [of item dc d "cats ! j" f] True by simp
  qed
qed

lemma count_items_first_slot:
  assumes "contiguous d"
  shows "\<exists>i dc occ. count_items (collect_categories d []) f d
             (0, [], replicate (length (collect_categories d [])) 0) = Inr (i, dc, occ)
           \<and> (\<forall>j < length (collect_categories d []).
                 occ ! j = length (filter (\<lambda>t. first_category d t =
                                                Some (collect_categories d [] ! j)) f))"
proof (cases d)
  case Nil
  then show ?thesis by simp
next
  case (Cons item rest)
  let ?cats = "collect_categories d []"
  have cats: "?cats = remdups_adj (map (\<lambda>item. fst (fst item)) d)"
    using assms by (simp add: collect_categories_first_seen contiguous_def first_seen_remdups_adj)
  then have dist: "distinct ?cats" using assms by (simp add: contiguous_def)
  from cats have start: "drop 0 ?cats =
      remdups_adj (fst (fst item) # map (\<lambda>item. fst (fst item)) d)"
    by (simp add: Cons)
  from count_items_contiguous [OF assms, of f] obtain st where
    st: "count_items ?cats f d (0, [], replicate (length ?cats) 0) = Inr st" by blast
  obtain i dc occ where parts: "st = (i, dc, occ)" by (cases st) auto
  have "occ ! j = length (filter (\<lambda>t. first_category d t = Some (?cats ! j)) f)"
    if "j < length ?cats" for j
    using count_items_columns [OF start dist _ st [unfolded parts] that] that by simp
  with st parts show ?thesis by blast
qed

text \<open>
  An assignment that file mode returns for a glossary that declares the category \<open>A\<close>
  twice: its categories are not contiguous, and the only token of the function is
  counted in the third column, although the first slot that holds it has the category
  of the first column.
\<close>

lemma non_contiguous_example:
  "count_items [py ''A'', py ''B'', py ''C''] [py ''mov'']
     [((py ''A'', 0), py ''xq''), ((py ''B'', 0), py ''y''), ((py ''A'', 1), py ''mov''),
      ((py ''C'', 0), py ''mov'')] (0, [], [0, 0, 0])
   = Inr (2, [py ''mov''], [0, 0, 1])
   \<and> first_category
       [((py ''A'', 0), py ''xq''), ((py ''B'', 0), py ''y''), ((py ''A'', 1), py ''mov''),
        ((py ''C'', 0), py ''mov'')] (py ''mov'') = Some (py ''A'')"
  by (simp add: py_nth_def py_def)
section \<open>File mode\<close>

lemma readlines_nonempty:
  "contents \<noteq> [] \<Longrightarrow> readlines contents \<noteq> [] \<and> hd (readlines contents) \<noteq> [] \<and>
     hd (hd (readlines contents)) = hd contents"
  by (cases contents) (auto split: list.splits)

lemma keys_dict_add: "fst ` set (dict_add k s d) = insert k (fst ` set d)"
  by (induction k s d rule: dict_add.induct) auto

lemma key_categories_dict_add:
  "key_categories (dict_add (c, e) s d) = insert c (key_categories d)"
proof -
  have "key_categories x = fst ` fst ` set x" for x :: token_dict
    by (simp add: key_categories_def image_image)
  then show ?thesis by (simp add: keys_dict_add)
qed

lemma dict_add_not_Nil: "dict_add k s d \<noteq> []"
  by (induction k s d rule: dict_add.induct) auto

lemma py_nth_last: "py_nth (xs @ [x]) (int (length xs)) = Inr x"
  by (simp add: py_nth_def)

lemma py_nth_before_end: "xs \<noteq> [] \<Longrightarrow> py_nth xs (int (length xs) - 1) = Inr (last xs)"
  by (cases xs rule: rev_cases) (auto simp: py_nth_def nth_append)

lemma glossary_lines_marker:
  "sc \<in> set l \<Longrightarrow>
   glossary_lines sc voc (l # ls) (fs, int (length fs), e, td) =
   glossary_lines sc voc ls
     (fs @ [remove_char newline (remove_char sc l)], int (length fs) + 1, 0,
      dict_add (remove_char newline (remove_char sc l), 0) [] td)"
  by (simp add: Let_def py_nth_last)

lemma glossary_lines_other:
  "sc \<notin> set l \<Longrightarrow> remove_char newline (remove_char space l) \<notin> set voc \<Longrightarrow>
   glossary_lines sc voc (l # ls) (fs, f, e, td) = glossary_lines sc voc ls (fs, f, e, td)"
  by (simp add: Let_def)

lemma glossary_lines_mnemonic:
  "sc \<notin> set l \<Longrightarrow> remove_char newline (remove_char space l) \<in> set voc \<Longrightarrow> fs \<noteq> [] \<Longrightarrow>
   glossary_lines sc voc (l # ls) (fs, int (length fs), e, td) =
   glossary_lines sc voc ls
     (fs, int (length fs), e + 1,
      dict_add (last fs, e) (remove_char newline (remove_char space l)) td)"
  by (simp add: Let_def py_nth_before_end)

lemma glossary_lines_mnemonic_fails:
  "sc \<notin> set l \<Longrightarrow> remove_char newline (remove_char space l) \<in> set voc \<Longrightarrow>
   glossary_lines sc voc (l # ls) ([], 0, e, td) = Inl IndexError"
  by (simp add: Let_def py_nth_def)

lemma glossary_lines_invariant:
  "glossary_lines sc voc ls (fs, int (length fs), e, td) = Inr (fs', f', e', td') \<Longrightarrow>
   key_categories td = set fs \<Longrightarrow>
   fs' = fs @ marker_names sc ls \<and> f' = int (length fs') \<and> key_categories td' = set fs'"
proof (induction ls arbitrary: fs e td)
  case Nil
  from Nil(1) have "fs' = fs" "f' = int (length fs)" "td' = td" by auto
  with Nil(2) show ?case by (simp add: marker_names_def)
next
  case (Cons l ls)
  define el where "el = remove_char newline (remove_char space l)"
  consider (marker) "sc \<in> set l" | (other) "sc \<notin> set l" "el \<notin> set voc"
    | (mnemonic) "sc \<notin> set l" "el \<in> set voc" by blast
  then show ?case
  proof cases
    case marker
    define name where "name = remove_char newline (remove_char sc l)"
    have len: "int (length fs) + 1 = int (length (fs @ [name]))" by simp
    have "glossary_lines sc voc ls (fs @ [name], int (length (fs @ [name])), 0,
             dict_add (name, 0) [] td) = Inr (fs', f', e', td')"
      using Cons.prems(1) unfolding glossary_lines_marker [OF marker] name_def [symmetric] len .
    moreover have "key_categories (dict_add (name, 0) [] td) = set (fs @ [name])"
      using Cons.prems(2) by (simp add: key_categories_dict_add)
    ultimately have "fs' = (fs @ [name]) @ marker_names sc ls \<and> f' = int (length fs') \<and>
        key_categories td' = set fs'"
      by (rule Cons.IH)
    then show ?thesis using marker by (simp add: marker_names_def name_def)
  next
    case other
    have "glossary_lines sc voc ls (fs, int (length fs), e, td) = Inr (fs', f', e', td')"
      using Cons.prems(1) unfolding glossary_lines_other [OF other [unfolded el_def]] .
    from Cons.IH [OF this Cons.prems(2)] other(1) show ?thesis by (simp add: marker_names_def)
  next
    case mnemonic
    have ne: "fs \<noteq> []"
    proof
      assume "fs = []"
      then have "glossary_lines sc voc (l # ls) ([], 0, e, td) = Inr (fs', f', e', td')"
        using Cons.prems(1) by (simp del: glossary_lines.simps)
      then show False
        unfolding glossary_lines_mnemonic_fails [OF mnemonic [unfolded el_def]] by simp
    qed
    have "glossary_lines sc voc ls (fs, int (length fs), e + 1, dict_add (last fs, e) el td)
          = Inr (fs', f', e', td')"
      using Cons.prems(1)
      unfolding glossary_lines_mnemonic [OF mnemonic [unfolded el_def] ne] el_def [symmetric] .
    moreover have "key_categories (dict_add (last fs, e) el td) = set fs"
      using ne by (simp add: key_categories_dict_add Cons.prems(2) insert_absorb)
    ultimately have "fs' = fs @ marker_names sc ls \<and> f' = int (length fs') \<and>
          key_categories td' = set fs'"
      by (rule Cons.IH)
    then show ?thesis using mnemonic(1) by (simp add: marker_names_def)
  qed
qed

lemma glossary_lines_succeeds:
  "fs \<noteq> [] \<or> (ls \<noteq> [] \<and> sc \<in> set (hd ls)) \<Longrightarrow>
   \<exists>st. glossary_lines sc voc ls (fs, int (length fs), e, td) = Inr st"
proof (induction ls arbitrary: fs e td)
  case Nil
  then show ?case by simp
next
  case (Cons l ls)
  define el where "el = remove_char newline (remove_char space l)"
  consider (marker) "sc \<in> set l" | (other) "sc \<notin> set l" "el \<notin> set voc"
    | (mnemonic) "sc \<notin> set l" "el \<in> set voc" by blast
  then show ?case
  proof cases
    case marker
    define name where "name = remove_char newline (remove_char sc l)"
    have len: "int (length fs) + 1 = int (length (fs @ [name]))" by simp
    have "\<exists>st. glossary_lines sc voc ls (fs @ [name], int (length (fs @ [name])), 0,
             dict_add (name, 0) [] td) = Inr st"
      by (rule Cons.IH) simp
    then show ?thesis
      unfolding glossary_lines_marker [OF marker] name_def [symmetric] len .
  next
    case other
    with Cons.prems have ne: "fs \<noteq> []" by simp
    have "\<exists>st. glossary_lines sc voc ls (fs, int (length fs), e, td) = Inr st"
      using ne by (intro Cons.IH) simp
    then show ?thesis
      unfolding glossary_lines_other [OF other [unfolded el_def]] .
  next
    case mnemonic
    with Cons.prems have ne: "fs \<noteq> []" by simp
    have "\<exists>st. glossary_lines sc voc ls (fs, int (length fs), e + 1,
            dict_add (last fs, e) el td) = Inr st"
      using ne by (intro Cons.IH) simp
    then show ?thesis
      unfolding glossary_lines_mnemonic [OF mnemonic [unfolded el_def] ne] el_def [symmetric] .
  qed
qed

lemma marker_names_first:
  "ls \<noteq> [] \<Longrightarrow> sc \<in> set (hd ls) \<Longrightarrow>
   remove_char newline (remove_char sc (hd ls)) \<in> set (marker_names sc ls)"
  by (cases ls) (simp_all add: marker_names_def)

lemma file_mode_lines:
  assumes "lines \<noteq> []" and "hd lines \<noteq> []"
  shows "\<exists>td. file_mode voc lines =
           Inr (td, int (length voc) > int (length lines) - int (length (marker_names (hd (hd lines)) lines)))
         \<and> td \<noteq> [] \<and> key_categories td = set (marker_names (hd (hd lines)) lines)"
proof -
  define sc where "sc = hd (hd lines)"
  have l0: "py_nth lines 0 = Inr (hd lines)"
    using assms(1) by (cases lines) (simp_all add: py_nth_def)
  have c0: "py_nth (hd lines) 0 = Inr sc"
    using assms(2) unfolding sc_def by (cases "hd lines") (simp_all add: py_nth_def)
  have first: "lines \<noteq> [] \<and> sc \<in> set (hd lines)"
    using assms unfolding sc_def by simp
  then obtain st where st: "glossary_lines sc voc lines ([], int (length ([]::str list)), 0, []) = Inr st"
    using glossary_lines_succeeds [of "[]" lines sc voc 0 "[]"] by blast
  obtain fs f e td where parts: "st = (fs, f, e, td)" by (cases st) auto
  from glossary_lines_invariant [OF st [unfolded parts]]
  have fs: "fs = marker_names sc lines" and keys: "key_categories td = set fs"
    by (simp_all add: key_categories_def)
  from marker_names_first [of lines sc] first keys fs
  have "td \<noteq> []" by (auto simp: key_categories_def)
  then show ?thesis
    using l0 c0 st parts fs keys by (simp add: file_mode_def sc_def)
qed

lemma file_mode_no_lines: "file_mode voc [] = Inl IndexError"
  by (simp add: file_mode_def py_nth_def)


lemma token_categorizer_str:
  "token_categorizer g voc (PyStr path) w =
     (case files w path of
        Inl e \<Rightarrow> (Inl e, w\<lparr>opened := opened w @ [path]\<rparr>)
      | Inr contents \<Rightarrow>
          (case file_mode voc (readlines contents) of
             Inl e \<Rightarrow> (Inl e, w\<lparr>opened := opened w @ [path]\<rparr>)
           | Inr (token_dict, warn) \<Rightarrow>
               (Inr token_dict,
                w\<lparr>opened := opened w @ [path],
                  printed := printed w @ (if warn then [warning_text] else [])\<rparr>)))"
  by (simp add: token_categorizer_def Let_def split: sum.splits)

lemma token_categorizer_other:
  "\<forall>path. arg \<noteq> PyStr path \<Longrightarrow> token_categorizer g voc arg w = (default_mode g voc, w)"
  by (cases arg) (simp_all add: token_categorizer_def)

lemma token_categorizer_file:
  assumes "files w path = Inr contents" and "contents \<noteq> []"
  shows "\<exists>td. token_categorizer g voc (PyStr path) w =
           (Inr td,
            w\<lparr>opened := opened w @ [path],
              printed := printed w @
                (if int (length voc) > int (length (readlines contents))
                      - int (length (marker_names (hd contents) (readlines contents)))
                 then [warning_text] else [])\<rparr>)
         \<and> td \<noteq> [] \<and> key_categories td = set (marker_names (hd contents) (readlines contents))"
proof -
  from readlines_nonempty [OF assms(2)]
  have ne: "readlines contents \<noteq> []" "hd (readlines contents) \<noteq> []"
    and hd: "hd (hd (readlines contents)) = hd contents" by simp_all
  from file_mode_lines [OF ne, of voc] obtain td where
    fm: "file_mode voc (readlines contents) =
           Inr (td, int (length voc) > int (length (readlines contents))
                      - int (length (marker_names (hd contents) (readlines contents))))"
    and td: "td \<noteq> []" "key_categories td = set (marker_names (hd contents) (readlines contents))"
    unfolding hd by blast
  show ?thesis
    using td by (simp add: token_categorizer_str assms(1) fm)
qed

lemma token_categorizer_empty_file:
  "files w path = Inr [] \<Longrightarrow>
   token_categorizer g voc (PyStr path) w = (Inl IndexError, w\<lparr>opened := opened w @ [path]\<rparr>)"
  by (simp add: token_categorizer_str file_mode_no_lines)

lemmas categorizer_eval = token_categorizer_def file_mode_def default_mode_def py_nth_def Let_def
  remove_char_def newline_def space_def quote_def py_def one_file_def

lemma readlines_glossary_file_text:
  "readlines glossary_file_text = [py ''*A*'' @ [newline], py ''mov'' @ [newline], py ''*B*'' @ [newline], py ''add'' @ [newline]]"
  by (simp add: glossary_file_text_def newline_def py_def)

lemma glossary_file_example:
  "token_categorizer no_glossary [py ''mov'', py ''add''] (PyStr (py ''glossary.txt''))
       (one_file (py ''glossary.txt'') glossary_file_text)
     = (Inr [((py ''A'', 0), py ''mov''), ((py ''B'', 0), py ''add'')],
        (one_file (py ''glossary.txt'') glossary_file_text)\<lparr>opened := [py ''glossary.txt'']\<rparr>)"
  by (simp add: categorizer_eval readlines_glossary_file_text)

lemma readlines_star_file_text:
  "readlines star_file_text = [[0x2605] @ py ''A'' @ [0x2605, newline], [0x2192, newline],
     py ''mov'' @ [newline]]"
  by (simp add: star_file_text_def newline_def py_def)

lemma star_file_example:
  "token_categorizer no_glossary [py ''mov''] (PyStr (py ''glossary.txt''))
       (one_file (py ''glossary.txt'') star_file_text)
     = (Inr [((py ''A'', 0), py ''mov'')],
        (one_file (py ''glossary.txt'') star_file_text)\<lparr>opened := [py ''glossary.txt'']\<rparr>)"
  by (simp add: categorizer_eval readlines_star_file_text)

text \<open>
  A glossary file that declares a category twice gives an assignment whose categories
  are not contiguous.
\<close>

lemma repeated_category_example:
  "token_categorizer no_glossary [py ''x'', py ''y'', py ''q'', py ''mov'']
       (PyStr (py ''glossary.txt'')) (one_file (py ''glossary.txt'') repeated_category_file_text)
     = (Inr [((py ''A'', 0), py ''xq''), ((py ''B'', 0), py ''y''), ((py ''A'', 1), py ''mov''),
             ((py ''C'', 0), py ''mov'')],
        (one_file (py ''glossary.txt'') repeated_category_file_text)
          \<lparr>opened := [py ''glossary.txt'']\<rparr>)
   \<and> \<not> contiguous [((py ''A'', 0), py ''xq''), ((py ''B'', 0), py ''y''),
                     ((py ''A'', 1), py ''mov''), ((py ''C'', 0), py ''mov'')]"
  by (simp add: categorizer_eval repeated_category_file_text_def contiguous_def)

section \<open>Default mode\<close>

lemma py_nth_mem: "py_nth xs i = Inr x \<Longrightarrow> x \<in> set xs"
  by (auto simp: py_nth_def split: if_splits)

lemma default_items_keys:
  "default_items features voc d (f, e, td) = Inr (f', e', td') \<Longrightarrow>
   key_categories td \<subseteq> set features \<Longrightarrow> key_categories td' \<subseteq> set features"
proof (induction d arbitrary: f e td)
  case Nil
  then show ?case by simp
next
  case (Cons item d)
  from Cons.prems(1) obtain c where c: "py_nth features f = Inr c"
    by (auto split: sum.splits)
  show ?case
  proof (cases "fst (fst item) \<noteq> c")
    case True
    with Cons.prems(1) c obtain c1 where c1: "py_nth features (f + 1) = Inr c1"
      by (auto split: sum.splits)
    let ?td1 = "dict_add (c1, 0) [] td"
    have k1: "key_categories ?td1 \<subseteq> set features"
      using Cons.prems(2) py_nth_mem [OF c1] by (simp add: key_categories_dict_add)
    show ?thesis
    proof (cases "snd item \<in> set voc")
      case False
      then have "default_items features voc d (f + 1, 0, ?td1) = Inr (f', e', td')"
        using Cons.prems(1) c c1 True by simp
      from Cons.IH [OF this k1] show ?thesis .
    next
      case mem: True
      then have "default_items features voc d (f + 1, 0 + 1, dict_add (c1, 0) (snd item) ?td1)
          = Inr (f', e', td')"
        using Cons.prems(1) c c1 True by simp
      moreover have "key_categories (dict_add (c1, 0) (snd item) ?td1) \<subseteq> set features"
        using k1 py_nth_mem [OF c1] by (simp add: key_categories_dict_add)
      ultimately show ?thesis by (rule Cons.IH)
    qed
  next
    case same: False
    show ?thesis
    proof (cases "snd item \<in> set voc")
      case False
      then have "default_items features voc d (f, e, td) = Inr (f', e', td')"
        using Cons.prems(1) c same by simp
      from Cons.IH [OF this Cons.prems(2)] show ?thesis .
    next
      case mem: True
      then have "default_items features voc d (f, e + 1, dict_add (c, e) (snd item) td)
          = Inr (f', e', td')"
        using Cons.prems(1) c same by simp
      moreover have "key_categories (dict_add (c, e) (snd item) td) \<subseteq> set features"
        using Cons.prems(2) py_nth_mem [OF c] by (simp add: key_categories_dict_add)
      ultimately show ?thesis by (rule Cons.IH)
    qed
  qed
qed

lemma default_mode_keys:
  "default_mode g voc = Inr td \<Longrightarrow> key_categories td \<subseteq> set (getCategories g)"
proof -
  assume a: "default_mode g voc = Inr td"
  then obtain c where c: "py_nth (getCategories g) 0 = Inr c"
    by (auto simp: default_mode_def Let_def split: sum.splits)
  with a obtain f e where
    "default_items (getCategories g) voc (getDictionary g) (0, 0, dict_add (c, 0) [] []) = Inr (f, e, td)"
    by (auto simp: default_mode_def Let_def split: sum.splits)
  moreover have "key_categories (dict_add (c, 0) [] []) \<subseteq> set (getCategories g)"
    using py_nth_mem [OF c] by (simp add: key_categories_def)
  ultimately show ?thesis by (rule default_items_keys)
qed

lemma default_items_append:
  "default_items features voc (d1 @ d2) st =
     (case default_items features voc d1 st of
        Inl e \<Rightarrow> Inl e
      | Inr st1 \<Rightarrow> default_items features voc d2 st1)"
proof (induction d1 arbitrary: st)
  case Nil
  then show ?case by simp
next
  case (Cons item d1)
  obtain f e td where st: "st = (f, e, td)" by (cases st) auto
  show ?case unfolding st using Cons.IH
    by (simp split: sum.splits)
qed

lemma default_items_same_category:
  assumes "py_nth features f = Inr c" and "\<forall>item \<in> set d. fst (fst item) = c"
  shows "default_items features voc d (f, e, td) =
           Inr (f, e + length (filter (\<lambda>m. m \<in> set voc) (map snd d)),
                add_slots c e (filter (\<lambda>m. m \<in> set voc) (map snd d)) td)"
  using assms(2)
proof (induction d arbitrary: e td)
  case Nil
  then show ?case by simp
next
  case (Cons item d)
  then have c: "fst (fst item) = c" and rest: "\<forall>item \<in> set d. fst (fst item) = c"
    by simp_all
  show ?case
    using Cons.IH [OF rest] c assms(1) by simp
qed

lemma default_items_next_category:
  assumes "py_nth features f = Inr c0" and "py_nth features (f + 1) = Inr c" and "c \<noteq> c0"
    and "d \<noteq> []" and "\<forall>item \<in> set d. fst (fst item) = c"
  shows "default_items features voc d (f, e, td) =
           Inr (f + 1, length (filter (\<lambda>m. m \<in> set voc) (map snd d)),
                add_slots c 0 (filter (\<lambda>m. m \<in> set voc) (map snd d)) (dict_add (c, 0) [] td))"
proof -
  from assms(4) obtain item rest where d: "d = item # rest" by (cases d) auto
  with assms(5) have c: "fst (fst item) = c" and rest: "\<forall>item \<in> set rest. fst (fst item) = c"
    by simp_all
  note same = default_items_same_category [OF assms(2) rest, of voc]
  show ?thesis
    unfolding d using c assms(1,2,3) same by simp
qed

lemma remdups_adj_starts: "\<exists>zs. remdups_adj (x # xs) = x # zs"
  by (induction xs) (auto simp: remdups_adj_Cons split: list.splits)

lemma default_items_in_range:
  assumes "0 \<le> f"
    and "\<exists>ys. drop (nat f) features = remdups_adj (c0 # map (\<lambda>item. fst (fst item)) d) @ ys"
  shows "\<exists>st. default_items features voc d (f, e, td) = Inr st"
  using assms
proof (induction d arbitrary: f c0 e td)
  case Nil
  then show ?case by simp
next
  case (Cons item d)
  let ?c = "fst (fst item)"
  from Cons.prems(2) obtain ys where
    ys: "drop (nat f) features = remdups_adj (c0 # ?c # map (\<lambda>item. fst (fst item)) d) @ ys"
    by auto
  then obtain zs where zs: "drop (nat f) features = c0 # zs"
    using remdups_adj_starts [of c0 "?c # map (\<lambda>item. fst (fst item)) d"] by auto
  then have f: "nat f < length features" and c0: "features ! nat f = c0"
    by (metis drop_eq_Nil not_le list.distinct(1),
        metis hd_drop_conv_nth drop_eq_Nil not_le list.distinct(1) list.sel(1))
  then have nth: "py_nth features f = Inr c0"
    using Cons.prems(1) by (simp add: py_nth_def)
  show ?case
  proof (cases "c0 = ?c")
    case True
    with ys have "\<exists>ys. drop (nat f) features = remdups_adj (c0 # map (\<lambda>item. fst (fst item)) d) @ ys"
      by auto
    from Cons.IH [OF Cons.prems(1) this]
    have "\<exists>st. default_items features voc d (f, e', td') = Inr st" for e' td' .
    then show ?thesis using nth True by simp
  next
    case False
    with ys have "drop (nat f) features = c0 # remdups_adj (?c # map (\<lambda>item. fst (fst item)) d) @ ys"
      by simp
    then have "drop (Suc (nat f)) features = remdups_adj (?c # map (\<lambda>item. fst (fst item)) d) @ ys"
      by (metis drop_Suc list.sel(3) tl_drop)
    moreover have s: "Suc (nat f) = nat (f + 1)" using Cons.prems(1) by simp
    ultimately have d1: "\<exists>ys. drop (nat (f + 1)) features =
        remdups_adj (?c # map (\<lambda>item. fst (fst item)) d) @ ys"
      by auto
    then obtain ws where "drop (nat (f + 1)) features = ?c # ws"
      using remdups_adj_starts [of ?c "map (\<lambda>item. fst (fst item)) d"] by auto
    then have "nat (f + 1) < length features" and "features ! nat (f + 1) = ?c"
      by (metis drop_eq_Nil not_le list.distinct(1),
          metis hd_drop_conv_nth drop_eq_Nil not_le list.distinct(1) list.sel(1))
    then have nth1: "py_nth features (f + 1) = Inr ?c"
      using Cons.prems(1) by (simp add: py_nth_def)
    have "0 \<le> f + 1" using Cons.prems(1) by simp
    from Cons.IH [OF this d1]
    have "\<exists>st. default_items features voc d (f + 1, e', td') = Inr st" for e' td' .
    then show ?thesis using nth nth1 False by simp
  qed
qed

lemma default_items_categories:
  assumes "0 \<le> f"
    and "\<exists>ys. drop (nat f) features = remdups_adj (c0 # map (\<lambda>item. fst (fst item)) d) @ ys"
    and "default_items features voc d (f, e, td) = Inr (f', e', td')"
    and "c0 \<in> key_categories td"
  shows "key_categories td' = key_categories td \<union> (\<lambda>item. fst (fst item)) ` set d"
  using assms
proof (induction d arbitrary: f c0 e td)
  case Nil
  then show ?case by simp
next
  case (Cons item d)
  let ?c = "fst (fst item)"
  from Cons.prems(2) obtain ys where
    ys: "drop (nat f) features = remdups_adj (c0 # ?c # map (\<lambda>item. fst (fst item)) d) @ ys"
    by auto
  then obtain zs where zs: "drop (nat f) features = c0 # zs"
    using remdups_adj_starts [of c0 "?c # map (\<lambda>item. fst (fst item)) d"] by auto
  then have f: "nat f < length features" and c0: "features ! nat f = c0"
    by (metis drop_eq_Nil not_le list.distinct(1),
        metis hd_drop_conv_nth drop_eq_Nil not_le list.distinct(1) list.sel(1))
  then have nth: "py_nth features f = Inr c0"
    using Cons.prems(1) by (simp add: py_nth_def)
  show ?case
  proof (cases "c0 = ?c")
    case True
    with ys have r: "\<exists>ys. drop (nat f) features = remdups_adj (c0 # map (\<lambda>item. fst (fst item)) d) @ ys"
      by auto
    show ?thesis
    proof (cases "snd item \<in> set voc")
      case False
      then have "default_items features voc d (f, e, td) = Inr (f', e', td')"
        using Cons.prems(3) nth True by simp
      from Cons.IH [OF Cons.prems(1) r this Cons.prems(4)] True Cons.prems(4)
      show ?thesis by auto
    next
      case mem: True
      let ?td1 = "dict_add (c0, e) (snd item) td"
      have "default_items features voc d (f, e + 1, ?td1) = Inr (f', e', td')"
        using Cons.prems(3) nth True mem by simp
      moreover have k: "key_categories ?td1 = key_categories td"
        using Cons.prems(4) by (simp add: key_categories_dict_add insert_absorb)
      ultimately have "key_categories td' = key_categories ?td1 \<union> (\<lambda>item. fst (fst item)) ` set d"
        using Cons.prems(4) by (intro Cons.IH [OF Cons.prems(1) r]) simp_all
      with k True Cons.prems(4) show ?thesis by auto
    qed
  next
    case False
    with ys have "drop (nat f) features = c0 # remdups_adj (?c # map (\<lambda>item. fst (fst item)) d) @ ys"
      by simp
    then have "drop (Suc (nat f)) features = remdups_adj (?c # map (\<lambda>item. fst (fst item)) d) @ ys"
      by (metis drop_Suc list.sel(3) tl_drop)
    moreover have s: "Suc (nat f) = nat (f + 1)" using Cons.prems(1) by simp
    ultimately have d1: "\<exists>ys. drop (nat (f + 1)) features =
        remdups_adj (?c # map (\<lambda>item. fst (fst item)) d) @ ys"
      by auto
    then obtain ws where "drop (nat (f + 1)) features = ?c # ws"
      using remdups_adj_starts [of ?c "map (\<lambda>item. fst (fst item)) d"] by auto
    then have "nat (f + 1) < length features" and "features ! nat (f + 1) = ?c"
      by (metis drop_eq_Nil not_le list.distinct(1),
          metis hd_drop_conv_nth drop_eq_Nil not_le list.distinct(1) list.sel(1))
    then have nth1: "py_nth features (f + 1) = Inr ?c"
      using Cons.prems(1) by (simp add: py_nth_def)
    have f1: "0 \<le> f + 1" using Cons.prems(1) by simp
    let ?td1 = "dict_add (?c, 0) [] td"
    have k1: "key_categories ?td1 = insert ?c (key_categories td)"
      by (simp add: key_categories_dict_add)
    show ?thesis
    proof (cases "snd item \<in> set voc")
      case absent: False
      then have "default_items features voc d (f + 1, 0, ?td1) = Inr (f', e', td')"
        using Cons.prems(3) nth nth1 False by simp
      then have "key_categories td' = key_categories ?td1 \<union> (\<lambda>item. fst (fst item)) ` set d"
        using k1 by (intro Cons.IH [OF f1 d1]) simp_all
      with k1 show ?thesis by auto
    next
      case mem: True
      let ?td2 = "dict_add (?c, 0) (snd item) ?td1"
      have "default_items features voc d (f + 1, 0 + 1, ?td2) = Inr (f', e', td')"
        using Cons.prems(3) nth nth1 False mem by simp
      moreover have k2: "key_categories ?td2 = insert ?c (key_categories td)"
        by (simp add: key_categories_dict_add)
      ultimately have "key_categories td' = key_categories ?td2 \<union> (\<lambda>item. fst (fst item)) ` set d"
        by (intro Cons.IH [OF f1 d1]) simp_all
      with k2 show ?thesis by auto
    qed
  qed
qed

lemma consistent_glossary_start:
  assumes "consistent_glossary g"
  shows "\<exists>c0. py_nth (getCategories g) 0 = Inr c0 \<and> hd (getCategories g) = c0 \<and>
           (\<exists>ys. drop (nat 0) (getCategories g) =
              remdups_adj (c0 # map (\<lambda>item. fst (fst item)) (getDictionary g)) @ ys)"
proof -
  let ?features = "getCategories g"
  let ?runs = "remdups_adj (map (\<lambda>item. fst (fst item)) (getDictionary g))"
  from assms have ne: "?features \<noteq> []" and tk: "take (length ?runs) ?features = ?runs"
    by (simp_all add: consistent_glossary_def Let_def)
  then obtain c0 rest where fs: "?features = c0 # rest" by (cases ?features) auto
  then have nth: "py_nth ?features 0 = Inr c0" by (simp add: py_nth_def)
  have "\<exists>ys. drop (nat 0) ?features =
      remdups_adj (c0 # map (\<lambda>item. fst (fst item)) (getDictionary g)) @ ys"
  proof (cases "getDictionary g")
    case Nil
    then show ?thesis using fs by simp
  next
    case (Cons item d)
    from tk have app: "?features = ?runs @ drop (length ?runs) ?features"
      by (metis append_take_drop_id)
    have "hd ?runs = fst (fst item)" by (simp add: Cons)
    moreover have "?runs \<noteq> []" by (simp add: Cons)
    ultimately have "c0 = fst (fst item)"
      using app fs by (metis hd_append2 list.sel(1))
    then have "remdups_adj (c0 # map (\<lambda>item. fst (fst item)) (getDictionary g)) = ?runs"
      by (simp add: Cons)
    then show ?thesis using app by (metis drop0 nat_0)
  qed
  with nth fs show ?thesis by simp
qed

lemma default_mode_consistent:
  assumes "consistent_glossary g"
  shows "\<exists>td. default_mode g voc = Inr td"
proof -
  from consistent_glossary_start [OF assms] obtain c0 where
    nth: "py_nth (getCategories g) 0 = Inr c0" and
    r: "\<exists>ys. drop (nat 0) (getCategories g) =
          remdups_adj (c0 # map (\<lambda>item. fst (fst item)) (getDictionary g)) @ ys"
    by blast
  from default_items_in_range [OF _ r, of voc 0 "dict_add (c0, 0) [] []"]
  obtain st where
    "default_items (getCategories g) voc (getDictionary g) (0, 0, dict_add (c0, 0) [] []) = Inr st"
    by auto
  then show ?thesis
    using nth by (cases st) (simp add: default_mode_def Let_def)
qed

lemma default_mode_categories:
  assumes "consistent_glossary g" and "default_mode g voc = Inr td"
  shows "key_categories td =
           insert (hd (getCategories g)) ((\<lambda>item. fst (fst item)) ` set (getDictionary g))"
proof -
  from consistent_glossary_start [OF assms(1)] obtain c0 where
    nth: "py_nth (getCategories g) 0 = Inr c0" and hd: "hd (getCategories g) = c0" and
    r: "\<exists>ys. drop (nat 0) (getCategories g) =
          remdups_adj (c0 # map (\<lambda>item. fst (fst item)) (getDictionary g)) @ ys"
    by blast
  from assms(2) nth obtain f' e' where
    "default_items (getCategories g) voc (getDictionary g) (0, 0, dict_add (c0, 0) [] [])
       = Inr (f', e', td)"
    by (auto simp: default_mode_def Let_def split: sum.splits)
  from default_items_categories [OF _ r this]
  show ?thesis by (simp add: key_categories_def hd)
qed
section \<open>The example scenario with three categories\<close>

text \<open>
  With a default glossary of exactly the categories Data transfer, Arithmetic and
  Control flow, in this order, its dictionary grouped by category in the same order,
  and, of the four tokens of the vocabulary, mov as the only one in the slots of Data
  transfer, add in those of Arithmetic and jmp in those of Control flow, each once, no
  slot keeps the placeholder: the empty tokens match nothing, and the table of the
  example has the rows 0.5, 0.5, 0 and 0, 0, 1.
\<close>

lemma example_table_three_categories:
  assumes "getCategories g = [py ''Data transfer'', py ''Arithmetic'', py ''Control flow'']"
    and "getDictionary g = d1 @ d2 @ d3"
    and "\<forall>item \<in> set d1. fst (fst item) = py ''Data transfer''"
    and "\<forall>item \<in> set d2. fst (fst item) = py ''Arithmetic''"
    and "\<forall>item \<in> set d3. fst (fst item) = py ''Control flow''"
    and "filter (\<lambda>m. m \<in> set [[], py ''mov'', py ''add'', py ''jmp'']) (map snd d1) = [py ''mov'']"
    and "filter (\<lambda>m. m \<in> set [[], py ''mov'', py ''add'', py ''jmp'']) (map snd d2) = [py ''add'']"
    and "filter (\<lambda>m. m \<in> set [[], py ''mov'', py ''add'', py ''jmp'']) (map snd d3) = [py ''jmp'']"
  shows "complete_preprocessing g example_functions PyNone w =
           (Inr \<lparr>columns = [py ''Data transfer'', py ''Arithmetic'', py ''Control flow''],
                 data = [[1 / 2, 1 / 2, 0], [0, 0, 1]]\<rparr>, w)"
proof -
  let ?features = "[py ''Data transfer'', py ''Arithmetic'', py ''Control flow'']"
  let ?voc = "[[], py ''mov'', py ''add'', py ''jmp'']"
  have n0: "py_nth ?features 0 = Inr (py ''Data transfer'')"
    and n1: "py_nth ?features (0 + 1) = Inr (py ''Arithmetic'')"
    and n2: "py_nth ?features (0 + 1 + 1) = Inr (py ''Control flow'')"
    by (simp_all add: py_nth_def)
  have ne: "py ''Arithmetic'' \<noteq> py ''Data transfer''" "py ''Data transfer'' \<noteq> py ''Arithmetic''"
    "py ''Control flow'' \<noteq> py ''Arithmetic''" "py ''Arithmetic'' \<noteq> py ''Control flow''"
    "py ''Control flow'' \<noteq> py ''Data transfer''" "py ''Data transfer'' \<noteq> py ''Control flow''"
    by (simp_all add: py_def)
  from assms(7) have d2: "d2 \<noteq> []" by auto
  from assms(8) have d3: "d3 \<noteq> []" by auto
  have s1: "default_items ?features ?voc d1 (0, 0, [((py ''Data transfer'', 0), [])]) =
      Inr (0, 1, [((py ''Data transfer'', 0), py ''mov'')])"
    using default_items_same_category [OF n0 assms(3), of ?voc 0 "[((py ''Data transfer'', 0), [])]"]
    unfolding assms(6) by simp
  have s2: "default_items ?features ?voc d2 (0, 1, [((py ''Data transfer'', 0), py ''mov'')]) =
      Inr (0 + 1, 1, [((py ''Data transfer'', 0), py ''mov''), ((py ''Arithmetic'', 0), py ''add'')])"
    using default_items_next_category [OF n0 n1 _ d2 assms(4), of ?voc 1 "[((py ''Data transfer'', 0), py ''mov'')]"]
    unfolding assms(7) by (simp add: ne)
  have s3: "default_items ?features ?voc d3
      (0 + 1, 1, [((py ''Data transfer'', 0), py ''mov''), ((py ''Arithmetic'', 0), py ''add'')]) =
      Inr (0 + 1 + 1, 1, [((py ''Data transfer'', 0), py ''mov''), ((py ''Arithmetic'', 0), py ''add''),
                  ((py ''Control flow'', 0), py ''jmp'')])"
    using default_items_next_category [OF n1 n2 _ d3 assms(5), of ?voc 1
        "[((py ''Data transfer'', 0), py ''mov''), ((py ''Arithmetic'', 0), py ''add'')]"]
    unfolding assms(8) by (simp add: ne)
  have "default_items ?features ?voc (d1 @ d2 @ d3) (0, 0, [((py ''Data transfer'', 0), [])]) =
      Inr (0 + 1 + 1, 1, [((py ''Data transfer'', 0), py ''mov''), ((py ''Arithmetic'', 0), py ''add''),
                  ((py ''Control flow'', 0), py ''jmp'')])"
    by (simp only: default_items_append s1 s2 s3 sum.case)
  then have "default_mode g ?voc =
      Inr [((py ''Data transfer'', 0), py ''mov''), ((py ''Arithmetic'', 0), py ''add''),
           ((py ''Control flow'', 0), py ''jmp'')]"
    using n0 by (simp add: default_mode_def assms(1,2))
  then show ?thesis
    by (simp add: complete_preprocessing_def tokenize_example token_categorizer_def
        dataframe_example)
qed


lemma example_table_three_categories_example:
  "complete_preprocessing three_categories example_functions PyNone no_files =
     (Inr \<lparr>columns = [py ''Data transfer'', py ''Arithmetic'', py ''Control flow''],
           data = [[1 / 2, 1 / 2, 0], [0, 0, 1]]\<rparr>, no_files)"
  using example_table_three_categories [of three_categories
      "[((py ''Data transfer'', 0), py ''mov''), ((py ''Data transfer'', 1), py ''push'')]"
      "[((py ''Arithmetic'', 0), py ''add''), ((py ''Arithmetic'', 1), py ''sub'')]"
      "[((py ''Control flow'', 0), py ''jmp'')]" no_files]
  by (simp add: three_categories_def py_def)

section \<open>The claims about \<open>tokenize_instructions\<close>\<close>

text \<open>
  Claim C9. \<open>tokenize_instructions\<close> reads nothing but its argument and its own local
  variables, so it is a function of the list of functions, and two runs on the same list
  return the same vocabulary. The theorem gives that function in closed form: the token
  sequence of every function consists of the commands of its fragments without the three
  noise fragments, and the vocabulary is the concatenation of the token sequences with
  every mnemonic kept at its first occurrence only; in particular it holds every mnemonic
  at most once.
\<close>

theorem vocabulary_first_seen:
  "snd (tokenize_instructions fs) =
     map (\<lambda>function. filter (\<lambda>command. command \<notin> set [py ''['', py '']'', py '',''])
                        (map command_of (split_py quote function))) fs
   \<and> fst (tokenize_instructions fs) = rev (remdups (rev (concat (snd (tokenize_instructions fs)))))
   \<and> distinct (fst (tokenize_instructions fs))"
  by (simp add: tokenize_instructions_eq first_seen_def tokens_of_def)

text \<open>
  Claim C3. The claim says that an empty function str gives an empty token sequence
  and adds nothing to the vocabulary. In the code \<open>"".split("'")\<close> is the list \<open>[""]\<close>, the
  command of that fragment is the empty str, and the empty str is not one of the
  three fragments that are discarded: for every input list with an empty str at
  position \<open>i\<close>, the token sequence at \<open>i\<close> is the one-element list holding the empty
  str, and the empty str is in the vocabulary.
\<close>

theorem empty_function_tokens:
  "i < length fs \<Longrightarrow> fs ! i = [] \<Longrightarrow>
   snd (tokenize_instructions fs) ! i = [[]] \<and> [] \<in> set (fst (tokenize_instructions fs))"
proof -
  assume a: "i < length fs" "fs ! i = []"
  then have "[] \<in> set fs" by (metis nth_mem)
  then have "[] \<in> set (concat (map tokens_of fs))"
    using tokens_of_empty by force
  then show ?thesis
    using a by (simp add: tokenize_instructions_eq set_first_seen tokens_of_empty)
qed

theorem empty_function_tokens_witness:
  "(0::nat) < length [[]::str] \<and> [[]::str] ! 0 = [] \<and>
   snd (tokenize_instructions [[]]) ! 0 = [[]] \<and> [] \<in> set (fst (tokenize_instructions [[]]))"
  using empty_function_tokens [of 0 "[[]]"] by simp

section \<open>The claims about \<open>token_categorizer\<close>\<close>

text \<open>
  Claim C10. File mode is entered only for an argument that is a \<open>str\<close>: then the file is
  opened. For every argument that is not a \<open>str\<close> (\<open>None\<close>, a path object, a list, ...)
  the call returns what default mode computes from the built-in glossary, exactly as for
  \<open>None\<close>, and leaves the world as it was: no file is opened and nothing is printed. The
  type of the argument raises no error; default mode itself returns an assignment for
  every consistent glossary.
\<close>

theorem non_string_glossary:
  assumes "\<forall>path. instruction_glossary \<noteq> PyStr path"
  shows "token_categorizer g token_list instruction_glossary w = (default_mode g token_list, w)
       \<and> token_categorizer g token_list instruction_glossary w = token_categorizer g token_list PyNone w
       \<and> opened (snd (token_categorizer g token_list (PyStr path) w)) = opened w @ [path]
       \<and> (consistent_glossary g \<longrightarrow>
            (\<exists>token_dict. token_categorizer g token_list instruction_glossary w = (Inr token_dict, w)))"
  using token_categorizer_other [OF assms, of g token_list w]
    token_categorizer_other [of PyNone g token_list w] default_mode_consistent [of g token_list]
  by (auto simp: token_categorizer_str split: sum.splits)

theorem non_string_glossary_witness:
  "(\<forall>path. PyPath (py ''glossary.txt'') \<noteq> PyStr path) \<and> consistent_glossary three_categories \<and>
   token_categorizer three_categories [py ''mov'', py ''jmp''] (PyPath (py ''glossary.txt''))
       (one_file (py ''glossary.txt'') glossary_file_text)
     = (Inr [((py ''Data transfer'', 0), py ''mov''), ((py ''Arithmetic'', 0), []),
             ((py ''Control flow'', 0), py ''jmp'')],
        (one_file (py ''glossary.txt'') glossary_file_text)) \<and>
   token_categorizer three_categories [py ''mov'', py ''jmp''] (PyPath (py ''glossary.txt''))
       (one_file (py ''glossary.txt'') glossary_file_text)
     = token_categorizer three_categories [py ''mov'', py ''jmp''] PyNone
       (one_file (py ''glossary.txt'') glossary_file_text) \<and>
   opened (snd (token_categorizer three_categories [py ''mov'', py ''jmp''] (PyStr (py ''glossary.txt''))
       (one_file (py ''glossary.txt'') glossary_file_text)))
     = [py ''glossary.txt'']"
  using non_string_glossary [of "PyPath (py ''glossary.txt'')" three_categories "[py ''mov'', py ''jmp'']"
      "(one_file (py ''glossary.txt'') glossary_file_text)"
      "py ''glossary.txt''"]
  by (simp add: categorizer_eval three_categories_def consistent_glossary_def)




text \<open>
  Claim C6. The claim says that a glossary file without the marker, or an empty one,
  gives an assignment without categories and then a table without columns. In the code
  the marker is the first character of the file, whatever it is, so the first line
  always contains it: for every readable file that is not empty \<open>token_categorizer\<close>
  returns an assignment in which the first line, without the marker and the newline, is
  a category, and every table that \<open>assembly_dataframer\<close> returns for that assignment has
  at least one column. For an empty file \<open>lines[0]\<close> raises \<open>IndexError\<close>: no assignment
  is returned.
\<close>

theorem glossary_file_categories:
  assumes "files w path = Inr contents"
  shows "(contents \<noteq> [] \<longrightarrow>
           (\<exists>token_dict w1. token_categorizer g token_list (PyStr path) w = (Inr token_dict, w1)
              \<and> remove_char newline (remove_char (hd contents) (hd (readlines contents)))
                   \<in> key_categories token_dict
              \<and> (\<forall>tokenized_functions table.
                    assembly_dataframer tokenized_functions token_dict = Inr table \<longrightarrow>
                    columns table \<noteq> [])))
       \<and> (contents = [] \<longrightarrow>
            fst (token_categorizer g token_list (PyStr path) w) = Inl IndexError)"
proof (intro conjI impI)
  assume ne: "contents \<noteq> []"
  from token_categorizer_file [OF assms ne, of g token_list] obtain td w1 where
    r: "token_categorizer g token_list (PyStr path) w = (Inr td, w1)" and td: "td \<noteq> []"
    and k: "key_categories td = set (marker_names (hd contents) (readlines contents))"
    by blast
  from readlines_nonempty [OF ne]
  have "remove_char newline (remove_char (hd contents) (hd (readlines contents)))
          \<in> set (marker_names (hd contents) (readlines contents))"
    by (intro marker_names_first) (simp_all, metis list.set_sel(1))
  moreover have "columns table \<noteq> []" if "assembly_dataframer tfs td = Inr table" for tfs table
    using assembly_dataframer_Inr [OF that] td by (simp add: collect_categories_Nil_iff)
  ultimately show "\<exists>token_dict w1. token_categorizer g token_list (PyStr path) w = (Inr token_dict, w1)
              \<and> remove_char newline (remove_char (hd contents) (hd (readlines contents)))
                   \<in> key_categories token_dict
              \<and> (\<forall>tokenized_functions table.
                    assembly_dataframer tokenized_functions token_dict = Inr table \<longrightarrow>
                    columns table \<noteq> [])"
    using r k by blast
next
  assume "contents = []"
  with assms show "fst (token_categorizer g token_list (PyStr path) w) = Inl IndexError"
    by (simp add: token_categorizer_empty_file)
qed

theorem glossary_file_categories_witness:
  "files (one_file (py ''glossary.txt'') star_file_text) (py ''glossary.txt'') = Inr star_file_text \<and>
   star_file_text \<noteq> [] \<and>
   token_categorizer no_glossary [py ''mov''] (PyStr (py ''glossary.txt''))
       (one_file (py ''glossary.txt'') star_file_text)
     = (Inr [((py ''A'', 0), py ''mov'')],
        (one_file (py ''glossary.txt'') star_file_text)\<lparr>opened := [py ''glossary.txt'']\<rparr>) \<and>
   remove_char newline (remove_char (hd star_file_text) (hd (readlines star_file_text))) = py ''A'' \<and>
   py ''A'' \<in> key_categories [((py ''A'', 0), py ''mov'')]"
  using glossary_file_categories [of "one_file (py ''glossary.txt'') star_file_text"
      "py ''glossary.txt''" star_file_text no_glossary "[py ''mov'']"]
  by (simp add: categorizer_eval readlines_star_file_text key_categories_def)
    (simp add: star_file_text_def remove_char_def newline_def py_def)

theorem malformed_glossary_counterexample:
  "token_categorizer no_glossary [py ''mov'', py ''add''] (PyStr (py ''glossary.txt''))
       (one_file (py ''glossary.txt'') unmarked_file_text)
     = (Inr [((py ''ov'', 0), py ''add'')],
        (one_file (py ''glossary.txt'') unmarked_file_text)\<lparr>opened := [py ''glossary.txt''], printed := [warning_text]\<rparr>)
   \<and> assembly_dataframer [[py ''mov'', py ''add'']] [((py ''ov'', 0), py ''add'')]
       = Inr \<lparr>columns = [py ''ov''], data = [[1]]\<rparr>
   \<and> token_categorizer no_glossary [py ''mov'', py ''add''] (PyStr (py ''glossary.txt''))
       (one_file (py ''glossary.txt'') [])
     = (Inl IndexError,
        (one_file (py ''glossary.txt'') [])\<lparr>opened := [py ''glossary.txt'']\<rparr>)"
  by (simp add: categorizer_eval unmarked_file_text_def eval_simps)

section \<open>The claims about \<open>assembly_dataframer\<close>\<close>

text \<open>
  Claim C7. The claim says that a mnemonic assigned to several categories is counted in
  each of them. The code keeps the mnemonics it has scored for the function in
  \<open>duplicate_control\<close> and skips every later slot that holds one of them. Amended: a slot
  whose mnemonic occurs in an earlier slot counts nothing, exactly like a slot whose
  mnemonic does not occur in the function; the raw counts of a function add up to the
  number of its tokens that are the mnemonic of some slot; and for a contiguous
  assignment the loop returns, and the raw count of every column is the number of the
  tokens of the function whose first slot has the category of that column: every token
  is counted once, in the column of the category of the first slot that holds it.
\<close>

theorem scored_mnemonic_skipped:
  "(mnemonic \<in> snd ` set d1 \<longrightarrow> absent \<notin> set function \<longrightarrow>
      count_items categories function (d1 @ (key, mnemonic) # d2) st =
      count_items categories function (d1 @ (key, absent) # d2) st)
   \<and> (count_items categories function token_dictionary (0, [], replicate (length categories) 0)
         = Inr (i, duplicate_control, token_occ) \<longrightarrow>
      sum_list token_occ =
        length (filter (\<lambda>token. token \<in> snd ` set token_dictionary) function))
   \<and> (contiguous token_dictionary \<longrightarrow>
        (\<exists>i1 duplicate_control1 token_occ1.
           count_items (collect_categories token_dictionary []) function token_dictionary
             (0, [], replicate (length (collect_categories token_dictionary [])) 0)
             = Inr (i1, duplicate_control1, token_occ1)
           \<and> (\<forall>j < length (collect_categories token_dictionary []).
                 token_occ1 ! j =
                   length (filter (\<lambda>token. first_category token_dictionary token =
                                     Some (collect_categories token_dictionary [] ! j)) function))))"
proof (intro conjI impI)
  assume m: "mnemonic \<in> snd ` set d1" and a: "absent \<notin> set function"
  show "count_items categories function (d1 @ (key, mnemonic) # d2) st =
        count_items categories function (d1 @ (key, absent) # d2) st"
  proof (cases "count_items categories function d1 st")
    case (Inl e)
    then show ?thesis by (simp add: count_items_append)
  next
    case (Inr st1)
    obtain i0 dc0 occ0 where st: "st = (i0, dc0, occ0)" by (cases st) auto
    obtain i1 dc1 occ1 where st1: "st1 = (i1, dc1, occ1)" by (cases st1) auto
    from count_items_duplicate_control [OF Inr [unfolded st st1]] m
    have "mnemonic \<notin> set function \<or> mnemonic \<in> set dc1" by auto
    from count_items_skip [OF this] count_items_skip [of absent "function" dc1] a
    show ?thesis using Inr st1 by (simp add: count_items_append)
  qed
next
  assume "count_items categories function token_dictionary (0, [], replicate (length categories) 0)
         = Inr (i, duplicate_control, token_occ)"
  from count_items_sum [OF this] show "sum_list token_occ =
        length (filter (\<lambda>token. token \<in> snd ` set token_dictionary) function)"
    by (simp add: matched_def)
next
  assume "contiguous token_dictionary"
  then show "\<exists>i1 duplicate_control1 token_occ1.
           count_items (collect_categories token_dictionary []) function token_dictionary
             (0, [], replicate (length (collect_categories token_dictionary [])) 0)
             = Inr (i1, duplicate_control1, token_occ1)
           \<and> (\<forall>j < length (collect_categories token_dictionary []).
                 token_occ1 ! j =
                   length (filter (\<lambda>token. first_category token_dictionary token =
                                     Some (collect_categories token_dictionary [] ! j)) function))"
    by (rule count_items_first_slot)
qed

theorem scored_mnemonic_skipped_witness:
  "py ''mov'' \<in> snd ` set [((py ''A'', 0::nat), py ''mov'')] \<and>
   py ''nop'' \<notin> set [py ''mov'', py ''mov''] \<and>
   contiguous [((py ''A'', 0), py ''mov''), ((py ''B'', 0), py ''mov'')] \<and>
   collect_categories [((py ''A'', 0), py ''mov''), ((py ''B'', 0), py ''mov'')] []
     = [py ''A'', py ''B''] \<and>
   count_items [py ''A'', py ''B''] [py ''mov'', py ''mov'']
       [((py ''A'', 0), py ''mov''), ((py ''B'', 0), py ''mov'')] (0, [], [0, 0])
     = Inr (1, [py ''mov''], [2, 0]) \<and>
   count_items [py ''A'', py ''B''] [py ''mov'', py ''mov'']
       [((py ''A'', 0), py ''mov''), ((py ''B'', 0), py ''nop'')] (0, [], [0, 0])
     = Inr (1, [py ''mov''], [2, 0]) \<and>
   sum_list [2, 0::nat] =
     length (filter (\<lambda>token. token \<in> snd ` set [((py ''A'', 0::nat), py ''mov''),
                                                  ((py ''B'', 0), py ''mov'')])
               [py ''mov'', py ''mov'']) \<and>
   first_category [((py ''A'', 0), py ''mov''), ((py ''B'', 0), py ''mov'')] (py ''mov'')
     = Some (py ''A'') \<and>
   length (filter (\<lambda>token. first_category [((py ''A'', 0), py ''mov''), ((py ''B'', 0), py ''mov'')]
                              token = Some (py ''A'')) [py ''mov'', py ''mov'']) = 2 \<and>
   length (filter (\<lambda>token. first_category [((py ''A'', 0), py ''mov''), ((py ''B'', 0), py ''mov'')]
                              token = Some (py ''B'')) [py ''mov'', py ''mov'']) = 0"
  using scored_mnemonic_skipped [of "py ''mov''" "[((py ''A'', 0), py ''mov'')]" "py ''nop''"
      "[py ''mov'', py ''mov'']" "[py ''A'', py ''B'']" "(py ''B'', 0)" "[]" "(0, [], [0, 0])"
      "[((py ''A'', 0), py ''mov''), ((py ''B'', 0), py ''mov'')]" 1 "[py ''mov'']" "[2, 0]"]
  by (simp add: py_nth_def py_def contiguous_def)

theorem double_count_counterexample:
  "assembly_dataframer [[py ''mov'']] [((py ''A'', 0), py ''mov''), ((py ''B'', 0), py ''mov'')]
     = Inr \<lparr>columns = [py ''A'', py ''B''], data = [[1, 0]]\<rparr>
   \<and> count_items [py ''A'', py ''B''] [py ''mov''] [((py ''A'', 0), py ''mov''), ((py ''B'', 0), py ''mov'')]
       (0, [], [0, 0]) = Inr (1, [py ''mov''], [1, 0])"
  by (simp add: eval_simps)

text \<open>
  Claim C2. The claim says that a function without any categorized token makes
  \<open>assembly_dataframer\<close> fail with an error kind of its own. The module defines no
  exception: with at least one slot in the assignment the division raises Python's
  built-in \<open>ZeroDivisionError\<close>, and with an empty assignment nothing is divided and a
  table without columns is returned. Amended: if the assignment is not empty and some
  function has no token that is the mnemonic of a slot, \<open>assembly_dataframer\<close> returns no
  table (and so no undefined number): it raises \<open>ZeroDivisionError\<close>, or \<open>IndexError\<close>
  when the index of the categories runs out of range first, which cannot happen for a
  contiguous assignment; for the empty assignment it returns the table without columns.
\<close>

theorem unmatched_function_fails:
  "(token_dictionary \<noteq> [] \<longrightarrow> function \<in> set tokenized_functions \<longrightarrow>
      (\<forall>item \<in> set token_dictionary. snd item \<notin> set function) \<longrightarrow>
      (assembly_dataframer tokenized_functions token_dictionary = Inl ZeroDivisionError \<or>
       assembly_dataframer tokenized_functions token_dictionary = Inl IndexError) \<and>
      (contiguous token_dictionary \<longrightarrow>
       assembly_dataframer tokenized_functions token_dictionary = Inl ZeroDivisionError))
   \<and> assembly_dataframer tokenized_functions []
       = Inr \<lparr>columns = [], data = replicate (length tokenized_functions) []\<rparr>"
proof (intro conjI impI)
  let ?cats = "collect_categories token_dictionary []"
  assume ne: "token_dictionary \<noteq> []" and f: "function \<in> set tokenized_functions"
    and un: "\<forall>item \<in> set token_dictionary. snd item \<notin> set function"
  from ne have "?cats \<noteq> []" by (simp add: collect_categories_Nil_iff)
  from function_row_unmatched [OF this un]
  obtain e where "function_row ?cats token_dictionary function = Inl e" by blast
  from percentage_list_fails [OF f this]
  obtain e' where "percentage_list ?cats token_dictionary tokenized_functions = Inl e'" by blast
  then have e': "assembly_dataframer tokenized_functions token_dictionary = Inl e'"
    by (simp add: assembly_dataframer_def)
  from assembly_dataframer_error [OF this] e'
  show "assembly_dataframer tokenized_functions token_dictionary = Inl ZeroDivisionError \<or>
      assembly_dataframer tokenized_functions token_dictionary = Inl IndexError"
    by auto
  show "assembly_dataframer tokenized_functions token_dictionary = Inl ZeroDivisionError"
    if "contiguous token_dictionary"
    using assembly_dataframer_contiguous_error [OF that e'] e' by simp
next
  show "assembly_dataframer tokenized_functions []
       = Inr \<lparr>columns = [], data = replicate (length tokenized_functions) []\<rparr>"
    by (simp add: assembly_dataframer_def percentage_list_no_categories)
qed

theorem unmatched_function_fails_witness:
  "[((py ''A'', 0::nat), py ''mov'')] \<noteq> [] \<and> [py ''nop''] \<in> set [[py ''mov''], [py ''nop'']] \<and>
   py ''mov'' \<notin> set [py ''nop''] \<and> contiguous [((py ''A'', 0), py ''mov'')] \<and>
   assembly_dataframer [[py ''mov''], [py ''nop'']] [((py ''A'', 0), py ''mov'')] = Inl ZeroDivisionError \<and>
   assembly_dataframer [[py ''mov''], [py ''nop'']] [] = Inr \<lparr>columns = [], data = [[], []]\<rparr>"
  using unmatched_function_fails [of "[((py ''A'', 0), py ''mov'')]" "[py ''nop'']" "[[py ''mov''], [py ''nop'']]"]
  by (simp add: eval_simps contiguous_def)

theorem dedicated_error_counterexample:
  "assembly_dataframer [[py ''nop'']] [((py ''A'', 0), py ''mov'')] = Inl ZeroDivisionError
   \<and> assembly_dataframer [[py ''nop'']] [] = Inr \<lparr>columns = [], data = [[]]\<rparr>"
  by (simp add: eval_simps)

text \<open>
  Claim C4. The claim bounds the distance of the sum of a row from 1 by 0.01. Every cell
  is rounded to two decimals on its own, so the errors add up: six categories with one
  token each give six cells of 0.17 and the sum 1.02. Amended: for every row of a table
  that \<open>assembly_dataframer\<close> returns, if the function of the row has at least one
  categorized token, the row has one cell for each column and its sum differs from 1 by
  at most \<open>0.005 + 2^-52\<close> for each column (half a unit of the second decimal, and the
  error of the two floating point roundings).
\<close>

theorem row_sum_bound:
  assumes "assembly_dataframer tokenized_functions token_dictionary = Inr table"
    and "i < length tokenized_functions"
    and "\<exists>item \<in> set token_dictionary. snd item \<in> set (tokenized_functions ! i)"
  shows "length (data table ! i) = length (columns table) \<and>
         \<bar>sum_list (data table ! i) - 1\<bar>
           \<le> of_nat (length (columns table)) * (1 / 200 + 1 / 2 ^ 52)"
proof -
  let ?cats = "collect_categories token_dictionary []"
  let ?f = "tokenized_functions ! i"
  from assembly_dataframer_Inr [OF assms(1)]
  have cols: "columns table = ?cats"
    and rows: "percentage_list ?cats token_dictionary tokenized_functions = Inr (data table)"
    by simp_all
  from percentage_list_rows [OF rows] assms(2)
  have row: "function_row ?cats token_dictionary ?f = Inr (data table ! i)" by simp
  from assms(3) have "token_dictionary \<noteq> []" by auto
  then have ne: "?cats \<noteq> []" by (simp add: collect_categories_Nil_iff)
  from function_row_Inr [OF row ne]
  obtain occ tot where tot: "tot = sum_list occ" and len: "length occ = length ?cats"
    and pos: "0 < tot" and eq: "data table ! i = map (\<lambda>c. cell c tot) occ"
    by blast
  have "\<forall>c \<in> set occ. \<bar>cell c tot - of_nat c / of_nat tot\<bar> \<le> 1 / 200 + 1 / 2 ^ 52"
    using cell_error [OF pos] by blast
  from abs_sum_list_diff [OF this]
  have "\<bar>sum_list (map (\<lambda>c. cell c tot) occ) - sum_list (map (\<lambda>c. of_nat c / of_nat tot) occ)\<bar>
          \<le> of_nat (length occ) * (1 / 200 + 1 / 2 ^ 52)" .
  moreover have "sum_list (map (\<lambda>c. (of_nat c :: rat) / of_nat tot) occ) = 1"
    using sum_list_shares [of occ] pos unfolding tot by blast
  ultimately show ?thesis using eq len cols by simp
qed

theorem row_sum_bound_witness:
  "assembly_dataframer [[py ''mov'', py ''add'', py ''mov'']] [((py ''A'', 0), py ''mov''), ((py ''B'', 0), py ''add'')]
     = Inr \<lparr>columns = [py ''A'', py ''B''],
            data = [[6034823500676465 / 9007199254740992, 5944751508129055 / 18014398509481984]]\<rparr>
   \<and> (0::nat) < length [[py ''mov'', py ''add'', py ''mov'']]
   \<and> (\<exists>item \<in> set [((py ''A'', 0::nat), py ''mov''), ((py ''B'', 0), py ''add'')].
         snd item \<in> set ([[py ''mov'', py ''add'', py ''mov'']] ! 0))
   \<and> \<bar>sum_list [6034823500676465 / 9007199254740992, 5944751508129055 / 18014398509481984] - (1::rat)\<bar>
        \<le> 2 * (1 / 200 + 1 / 2 ^ 52)"
proof -
  have e: "assembly_dataframer [[py ''mov'', py ''add'', py ''mov'']] [((py ''A'', 0), py ''mov''), ((py ''B'', 0), py ''add'')]
     = Inr \<lparr>columns = [py ''A'', py ''B''],
            data = [[6034823500676465 / 9007199254740992, 5944751508129055 / 18014398509481984]]\<rparr>"
    by (simp add: eval_simps)
  have h: "\<exists>item \<in> set [((py ''A'', 0::nat), py ''mov''), ((py ''B'', 0), py ''add'')].
         snd item \<in> set ([[py ''mov'', py ''add'', py ''mov'']] ! 0)"
    by simp
  from row_sum_bound [OF e _ h] e h show ?thesis by simp
qed

theorem row_sum_counterexample:
  "assembly_dataframer [[py ''a'', py ''b'', py ''c'', py ''d'', py ''e'', py ''f'']]
     [((py ''A'', 0), py ''a''), ((py ''B'', 0), py ''b''), ((py ''C'', 0), py ''c''),
      ((py ''D'', 0), py ''d''), ((py ''E'', 0), py ''e''), ((py ''F'', 0), py ''f'')]
   = Inr \<lparr>columns = [py ''A'', py ''B'', py ''C'', py ''D'', py ''E'', py ''F''],
          data = [[6124895493223875 / 36028797018963968, 6124895493223875 / 36028797018963968,
                   6124895493223875 / 36028797018963968, 6124895493223875 / 36028797018963968,
                   6124895493223875 / 36028797018963968, 6124895493223875 / 36028797018963968]]\<rparr>
   \<and> \<not> \<bar>sum_list [6124895493223875 / 36028797018963968, 6124895493223875 / 36028797018963968,
                   6124895493223875 / 36028797018963968, 6124895493223875 / 36028797018963968,
                   6124895493223875 / 36028797018963968, 6124895493223875 / 36028797018963968] - (1::rat)\<bar>
        \<le> 1 / 100"
  by (simp add: eval_simps)

text \<open>
  Claim C8. For every assignment that \<open>token_categorizer\<close> returns, every table that
  \<open>assembly_dataframer\<close> returns for it, for whatever list of token sequences, has as many
  columns as there are different categories in the keys of the assignment; for the empty
  list of token sequences a table is returned, without rows. The categories of the keys
  are the categories that \<open>token_categorizer\<close> met: in file mode exactly the names of the
  lines that contain the marker, in default mode categories of the built-in glossary:
  for a consistent glossary its first category and every category of its dictionary.
\<close>

theorem column_count:
  assumes "token_categorizer g token_list instruction_glossary w = (Inr token_dict, w1)"
  shows "(\<forall>tokenized_functions table.
            assembly_dataframer tokenized_functions token_dict = Inr table \<longrightarrow>
            length (columns table) = card (key_categories token_dict))
       \<and> (\<exists>table. assembly_dataframer [] token_dict = Inr table \<and> data table = [])
       \<and> (\<forall>path contents. instruction_glossary = PyStr path \<longrightarrow> files w path = Inr contents \<longrightarrow>
            key_categories token_dict = set (marker_names (hd contents) (readlines contents)))
       \<and> ((\<forall>path. instruction_glossary \<noteq> PyStr path) \<longrightarrow>
            key_categories token_dict \<subseteq> set (getCategories g) \<and>
            (consistent_glossary g \<longrightarrow>
             key_categories token_dict =
               insert (hd (getCategories g))
                 ((\<lambda>item. fst (fst item)) ` set (getDictionary g))))"
proof (intro conjI allI impI)
  fix tokenized_functions table
  assume "assembly_dataframer tokenized_functions token_dict = Inr table"
  then show "length (columns table) = card (key_categories token_dict)" by (rule columns_card)
next
  show "\<exists>table. assembly_dataframer [] token_dict = Inr table \<and> data table = []"
    by (simp add: assembly_dataframer_no_functions)
next
  fix path contents
  assume p: "instruction_glossary = PyStr path" and f: "files w path = Inr contents"
  have "contents \<noteq> []"
  proof
    assume "contents = []"
    with assms p f token_categorizer_empty_file [of w path g token_list] show False by simp
  qed
  from token_categorizer_file [OF f this, of g token_list] assms p
  show "key_categories token_dict = set (marker_names (hd contents) (readlines contents))"
    by auto
next
  assume "\<forall>path. instruction_glossary \<noteq> PyStr path"
  from token_categorizer_other [OF this, of g token_list w] assms
  have "default_mode g token_list = Inr token_dict" by simp
  then show "key_categories token_dict \<subseteq> set (getCategories g)" by (rule default_mode_keys)
next
  assume "\<forall>path. instruction_glossary \<noteq> PyStr path" and c: "consistent_glossary g"
  from token_categorizer_other [OF this(1), of g token_list w] assms
  have "default_mode g token_list = Inr token_dict" by simp
  with c show "key_categories token_dict =
      insert (hd (getCategories g)) ((\<lambda>item. fst (fst item)) ` set (getDictionary g))"
    by (rule default_mode_categories)
qed

theorem column_count_witness:
  "token_categorizer no_glossary [py ''mov''] (PyStr (py ''glossary.txt''))
       (one_file (py ''glossary.txt'') star_file_text)
     = (Inr [((py ''A'', 0), py ''mov'')],
        (one_file (py ''glossary.txt'') star_file_text)\<lparr>opened := [py ''glossary.txt'']\<rparr>)
   \<and> assembly_dataframer [[py ''mov'']] [((py ''A'', 0), py ''mov'')]
       = Inr \<lparr>columns = [py ''A''], data = [[1]]\<rparr>
   \<and> length [py ''A''] = card (key_categories [((py ''A'', 0), py ''mov'')])
   \<and> key_categories [((py ''A'', 0), py ''mov'')]
       = set (marker_names (hd star_file_text) (readlines star_file_text))
   \<and> marker_names (hd star_file_text) (readlines star_file_text) = [py ''A'']"
proof -
  let ?w = "one_file (py ''glossary.txt'') star_file_text"
  let ?td = "[((py ''A'', 0::nat), py ''mov'')]"
  have t: "assembly_dataframer [[py ''mov'']] ?td = Inr \<lparr>columns = [py ''A''], data = [[1]]\<rparr>"
    by (simp add: eval_simps)
  have m: "marker_names (hd star_file_text) (readlines star_file_text) = [py ''A'']"
    by (simp add: readlines_star_file_text)
      (simp add: star_file_text_def marker_names_def remove_char_def newline_def py_def)
  note cc = column_count [OF star_file_example]
  from cc have a: "\<forall>tokenized_functions table.
            assembly_dataframer tokenized_functions ?td = Inr table \<longrightarrow>
            length (columns table) = card (key_categories ?td)"
    by (rule conjunct1)
  from cc have b: "\<forall>path contents. PyStr (py ''glossary.txt'') = PyStr path \<longrightarrow>
            files ?w path = Inr contents \<longrightarrow>
            key_categories ?td = set (marker_names (hd contents) (readlines contents))"
    by (elim conjE) assumption
  from a t have "length [py ''A''] = card (key_categories ?td)" by fastforce
  moreover from b have "key_categories ?td
       = set (marker_names (hd star_file_text) (readlines star_file_text))"
    by (simp add: one_file_def)
  ultimately show ?thesis using star_file_example t m by blast
qed

section \<open>The claim about \<open>complete_preprocessing\<close>\<close>

text \<open>
  Claim C1. The example scenario, with no glossary file. \<open>tokenize_instructions\<close> splits
  each function at the quotes, and the fragments before, between and after the quoted
  instructions are empty strs: it keeps them as tokens, so the vocabulary is
  \<open>""\<close>, mov, add, jmp and each function has three empty tokens (the defect of claim C3:
  the docstring promises commands only). In default mode a category without a
  mnemonic of the vocabulary keeps the placeholder \<open>""\<close> in its slot, and
  \<open>assembly_dataframer\<close> counts the empty tokens there. With the default glossary
  \<open>four_categories\<close>, which places mov under Data transfer, add under Arithmetic and
  jmp under Control flow and has the further category Logical, the table returned has
  the rows 0.2, 0.2, 0, 0.6 and 0, 0, 0.4, 0.6, not 0.5, 0.5, 0 and 0, 0, 1.
\<close>

theorem example_table_empty_tokens:
  "tokenize_instructions example_functions =
     ([[], py ''mov'', py ''add'', py ''jmp''],
      [[[], py ''mov'', [], py ''add'', []], [[], py ''jmp'', [], py ''jmp'', []]])
   \<and> token_categorizer four_categories [[], py ''mov'', py ''add'', py ''jmp''] PyNone no_files =
       (Inr [((py ''Data transfer'', 0), py ''mov''), ((py ''Arithmetic'', 0), py ''add''),
             ((py ''Control flow'', 0), py ''jmp''), ((py ''Logical'', 0), [])], no_files)
   \<and> complete_preprocessing four_categories example_functions PyNone no_files =
     (Inr \<lparr>columns = [py ''Data transfer'', py ''Arithmetic'', py ''Control flow'', py ''Logical''],
           data = [[3602879701896397 / 18014398509481984, 3602879701896397 / 18014398509481984, 0,
                    5404319552844595 / 9007199254740992],
                   [0, 0, 3602879701896397 / 9007199254740992,
                    5404319552844595 / 9007199254740992]]\<rparr>, no_files)
   \<and> (3602879701896397 / 18014398509481984 :: rat) \<noteq> 1 / 2"
  by (simp add: complete_preprocessing_def tokenize_example four_categories_def no_files_def
      token_categorizer_def default_mode_def eval_simps)

end
